theory Spec2Isabelle
  imports Complex_Main "HOL-Library.AList" "HOL-Library.Log_Nat"
begin

section \<open>Steady-state IOPS test of \<open>run.py\<close>\<close>

text \<open>
  The development follows \<open>src/run.py\<close>. A value of a tracked list is a finite float,
  read as the real number it denotes. The stability evaluator \<open>in_steady_state\<close> rounds
  every operation on these values to a double; the blend of the two counters of a cell is
  read as the exact expression.
\<close>

subsection \<open>Python exceptions and exit codes\<close>

text \<open>
  \<open>sys.exit(1)\<close> and every exception that no handler of the program catches end the
  process; both are error values.
\<close>

datatype error =
  Sys_Exit nat
  | ValueError
  | KeyError
  | IndexError
  | TypeError
  | UnboundLocalError
  | JSONDecodeError
  | UnicodeDecodeError

subsection \<open>Double-precision arithmetic\<close>

text \<open>
  A Python float is an IEEE 754 binary64 value: a finite number, an infinity, or not a
  number. The two zeros are one value here: no operation of \<open>in_steady_state\<close> depends
  on the sign of zero.
\<close>

datatype double = Finite real | PInf | NInf | NaN

text \<open>The power \<open>2\<^sup>k\<close> for an integer \<open>k\<close>, and the exponent of the leading bit of \<open>x > 0\<close>.\<close>

definition pow2 :: "int \<Rightarrow> real" where
  "pow2 k = (if 0 \<le> k then 2 ^ nat k else 1 / 2 ^ nat (- k))"

definition ilog2 :: "real \<Rightarrow> int" where
  "ilog2 x = (if 1 \<le> x then bitlen \<lfloor>x\<rfloor> - 1 else - bitlen (\<lceil>1 / x\<rceil> - 1))"

text \<open>The nearest integer; of two nearest integers, the even one.\<close>

definition round_half_even :: "real \<Rightarrow> int" where
  "round_half_even q =
     (let n = \<lfloor>q\<rfloor>;
          r = q - of_int n
      in if r < 1 / 2 then n
         else if r > 1 / 2 then n + 1
         else if even n then n else n + 1)"

text \<open>
  The result of an operation whose exact value is \<open>x\<close>: the nearest double (53
  significant bits, the exponent of a normal number between -1022 and 1023, below that
  the grid of the subnormal numbers), ties to the even significand, an infinity when the
  rounded value is \<open>2\<^sup>1\<^sup>0\<^sup>2\<^sup>4\<close> or more.
\<close>

definition rnd :: "real \<Rightarrow> double" where
  "rnd x =
     (if x = 0 then Finite 0
      else
        let e = max (ilog2 \<bar>x\<bar>) (- 1022);
            u = pow2 (e - 52);
            y = of_int (round_half_even (x / u)) * u
        in if \<bar>y\<bar> < pow2 1024 then Finite y
           else if 0 < x then PInf else NInf)"

fun fsgn :: "double \<Rightarrow> real" where
  "fsgn (Finite x) = sgn x"
| "fsgn PInf = 1"
| "fsgn NInf = - 1"
| "fsgn NaN = 0"

fun fneg :: "double \<Rightarrow> double" where
  "fneg (Finite x) = Finite (- x)"
| "fneg PInf = NInf"
| "fneg NInf = PInf"
| "fneg NaN = NaN"

fun fabs :: "double \<Rightarrow> double" where
  "fabs (Finite x) = Finite \<bar>x\<bar>"
| "fabs PInf = PInf"
| "fabs NInf = PInf"
| "fabs NaN = NaN"

fun fadd :: "double \<Rightarrow> double \<Rightarrow> double" where
  "fadd (Finite x) (Finite y) = rnd (x + y)"
| "fadd (Finite x) PInf = PInf"
| "fadd (Finite x) NInf = NInf"
| "fadd PInf (Finite y) = PInf"
| "fadd PInf PInf = PInf"
| "fadd NInf (Finite y) = NInf"
| "fadd NInf NInf = NInf"
| "fadd a b = NaN"

definition fsub :: "double \<Rightarrow> double \<Rightarrow> double" where
  "fsub a b = fadd a (fneg b)"

fun fmul :: "double \<Rightarrow> double \<Rightarrow> double" where
  "fmul (Finite x) (Finite y) = rnd (x * y)"
| "fmul NaN b = NaN"
| "fmul a NaN = NaN"
| "fmul a b =
     (if fsgn a * fsgn b > 0 then PInf else if fsgn a * fsgn b < 0 then NInf else NaN)"

text \<open>A float divided by a positive count.\<close>

fun fdiv_count :: "double \<Rightarrow> nat \<Rightarrow> double" where
  "fdiv_count (Finite x) n = rnd (x / real n)"
| "fdiv_count a n = a"

text \<open>The comparison \<open>a >= b\<close>: false when an operand is not a number.\<close>

fun fge :: "double \<Rightarrow> double \<Rightarrow> bool" where
  "fge (Finite x) (Finite y) = (y \<le> x)"
| "fge NaN b = False"
| "fge a NaN = False"
| "fge PInf b = True"
| "fge a NInf = True"
| "fge a b = False"

text \<open>The float literals \<open>0.2\<close> and \<open>0.1\<close>: the doubles nearest to 1/5 and to 1/10.\<close>

definition float_0_2 :: real where
  "float_0_2 = 3602879701896397 / 2 ^ 54"

definition float_0_1 :: real where
  "float_0_1 = 3602879701896397 / 2 ^ 55"

subsection \<open>Library functions used by \<open>in_steady_state\<close>\<close>

text \<open>
  Modelled from the spec: \<open>numpy.mean\<close> is a library function whose code is not part of
  the repository; the spec calls its result the arithmetic mean. The model follows the
  library's documented computation in double precision: the sum of the elements divided
  by their number. The elements are added from left to right, each sum rounded, which
  is the order in which the library adds fewer than eight values (a window of the
  program has five). The mean of no element is not a number.
\<close>

definition np_mean :: "real list \<Rightarrow> double" where
  "np_mean ys =
     (if ys = [] then NaN
      else fdiv_count (fold (\<lambda>y s. fadd s (Finite y)) ys (Finite 0)) (length ys))"

text \<open>The builtins \<open>max\<close> and \<open>min\<close> raise \<open>ValueError\<close> on an empty sequence.\<close>

fun builtin_max :: "real list \<Rightarrow> error + real" where
  "builtin_max [] = Inl ValueError"
| "builtin_max (y # ys) = Inr (fold max ys y)"

fun builtin_min :: "real list \<Rightarrow> error + real" where
  "builtin_min [] = Inl ValueError"
| "builtin_min (y # ys) = Inr (fold min ys y)"

text \<open>The exact arithmetic mean of a non-empty sequence.\<close>

definition arith_mean :: "real list \<Rightarrow> real" where
  "arith_mean ys = sum_list ys / real (length ys)"

text \<open>
  Modelled from the spec: \<open>scipy.stats.linregress\<close> is a library function whose code
  is not part of the repository; the spec calls it an ordinary least-squares fit. The
  model follows the library's documented behaviour: inputs of different length or empty
  inputs raise \<open>ValueError\<close>, two or more identical x-values raise \<open>ValueError\<close>, a
  single point yields the quotient \<open>0.0 / 0.0\<close>, which is not a number, and otherwise
  the slope is the covariance of x and y divided by the variance of x (both taken as
  means of products of deviations), returned as the nearest double.
\<close>

definition linregress_slope :: "real list \<Rightarrow> real list \<Rightarrow> error + double" where
  "linregress_slope xs ys =
     (if length xs \<noteq> length ys then Inl ValueError
      else if xs = [] then Inl ValueError
      else if length xs = 1 then Inr NaN
      else if (\<forall>x \<in> set xs. x = hd xs) then Inl ValueError
      else
        let xmean = arith_mean xs;
            ymean = arith_mean ys;
            ssxm = arith_mean (map (\<lambda>x. (x - xmean) * (x - xmean)) xs);
            ssxym = arith_mean (map (\<lambda>(x, y). (x - xmean) * (y - ymean)) (zip xs ys))
        in Inr (rnd (ssxym / ssxm)))"

subsection \<open>Steady state\<close>

text \<open>
  \<open>in_steady_state\<close> has four exits, each announced by its own log line: the list is
  too short, criterion a) failed, criterion b) failed, all checks passed. The values of
  the list are finite floats, read as the numbers they denote; every operation on them
  is rounded to a double.
\<close>

datatype verdict = Too_Short | Failed_a | Failed_b | All_Passed

text \<open>The slice \<open>values[-window_size:]\<close>; \<open>values[-0:]\<close> is the whole list.\<close>

definition last_window :: "real list \<Rightarrow> nat \<Rightarrow> real list" where
  "last_window vs window_size =
     (if window_size = 0 then vs else drop (length vs - window_size) vs)"

text \<open>\<open>list(range(len(values) - window_size + 1, len(values) + 1))\<close>, as floats.\<close>

definition xvalues :: "nat \<Rightarrow> nat \<Rightarrow> real list" where
  "xvalues len window_size = map real [len - window_size + 1 ..< len + 1]"

definition steady_state_exit :: "real list \<Rightarrow> nat \<Rightarrow> error + verdict" where
  "steady_state_exit vs window_size =
     (if length vs < window_size then Inr Too_Short
      else
        let yvalues = last_window vs window_size;
            yavg = np_mean yvalues
        in (case builtin_max yvalues of
              Inl e \<Rightarrow> Inl e
            | Inr ymax \<Rightarrow>
               (case builtin_min yvalues of
                  Inl e \<Rightarrow> Inl e
                | Inr ymin \<Rightarrow>
                   (let yrange = fsub (Finite ymax) (Finite ymin)
                    in if fge yrange (fmul (Finite float_0_2) yavg) then Inr Failed_a
                       else
                         (case linregress_slope (xvalues (length vs) window_size) yvalues of
                            Inl e \<Rightarrow> Inl e
                          | Inr slope \<Rightarrow>
                             (let yrange_fit = fmul (fabs slope) (rnd (real window_size - 1))
                              in if fge yrange_fit (fmul (Finite float_0_1) yavg)
                                 then Inr Failed_b
                                 else Inr All_Passed))))))"

text \<open>The returned boolean: \<open>True\<close> only at the last exit.\<close>

definition in_steady_state :: "real list \<Rightarrow> nat \<Rightarrow> error + bool" where
  "in_steady_state vs window_size =
     (case steady_state_exit vs window_size of
        Inl e \<Rightarrow> Inl e
      | Inr v \<Rightarrow> Inr (v = All_Passed))"


subsection \<open>The outside world\<close>

text \<open>
  Parsed JSON, as \<open>json.loads\<close> returns it: a dict is a list of key-value pairs in
  insertion order.
\<close>

datatype json =
  JNull
  | JBool bool
  | JInt int
  | JReal real
  | JStr string
  | JArr "json list"
  | JObj "(string \<times> json) list"

text \<open>The value of a template argument: an \<open>int\<close> or a \<open>str\<close>.\<close>

datatype pyval = PInt int | PStr string

text \<open>The two job templates and the two compiled regular expressions, by name.\<close>

datatype template = WIPC_JOB_TPL | WDPC_IOPS_JOB_TPL

datatype regex = P1 | P2

record completed_process =
  stdout :: string
  stderr :: string

text \<open>
  Everything the program asks of the operating system or of a library is a call; the
  trace of a session lists its calls in order, each with a flag that tells whether it
  succeeded, and the journal lines of the measurement loop.
\<close>

datatype call =
  Subprocess "string list"
  | Write_File string string
  | Read_File string
  | Path_Exists string
  | Make_Dirs string
  | Scan_Dir string
  | Decode_Utf8 string
  | Json_Loads string
  | Regex_Match regex string
  | Render template "(string \<times> pyval) list"

datatype journal_line =
  Cell_Iops nat nat string real
  | Round_Finished nat "real list" "real list" "real list"
  | Steady_Break
  | Not_Reached

datatype event = Called call bool | Logged journal_line

text \<open>
  The collaborators. An answer of the operating system may depend on everything that
  happened before (the trace so far); \<open>None\<close> means that the call raised.
\<close>

record env =
  subprocess_run :: "event list \<Rightarrow> string list \<Rightarrow> completed_process option"
  file_write :: "event list \<Rightarrow> string \<Rightarrow> string \<Rightarrow> unit option"
  file_read :: "event list \<Rightarrow> string \<Rightarrow> string option"
  path_exists :: "event list \<Rightarrow> string \<Rightarrow> bool"
  makedirs :: "event list \<Rightarrow> string \<Rightarrow> unit option"
  scandir :: "event list \<Rightarrow> string \<Rightarrow> string list option"
  decode_utf8 :: "string \<Rightarrow> string option"
  json_loads :: "string \<Rightarrow> json option"
  json_dumps :: "json \<Rightarrow> string"
  splitlines :: "string \<Rightarrow> string list"
  regex_match :: "regex \<Rightarrow> string \<Rightarrow> (string \<times> string) list option"
  jinja_render :: "template \<Rightarrow> (string \<times> pyval) list \<Rightarrow> string option"

text \<open>
  A computation reads the trace so far and returns its result together with the events
  it adds. An error ends the computation: nothing runs after it.
\<close>

type_synonym 'a io = "event list \<Rightarrow> (error + 'a) \<times> event list"

definition ret :: "'a \<Rightarrow> 'a io" where
  "ret a tr = (Inr a, [])"

definition abort :: "error \<Rightarrow> 'a io" where
  "abort e tr = (Inl e, [])"

definition lift :: "error + 'a \<Rightarrow> 'a io" where
  "lift r tr = (r, [])"

definition bind :: "'a io \<Rightarrow> ('a \<Rightarrow> 'b io) \<Rightarrow> 'b io" where
  "bind m f tr =
     (case m tr of
        (Inl e, evs) \<Rightarrow> (Inl e, evs)
      | (Inr a, evs) \<Rightarrow> (case f a (tr @ evs) of (r, evs') \<Rightarrow> (r, evs @ evs')))"

definition ask :: "call \<Rightarrow> (event list \<Rightarrow> 'a option) \<Rightarrow> error \<Rightarrow> 'a io" where
  "ask c oracle e tr =
     (case oracle tr of
        None \<Rightarrow> (Inl e, [Called c False])
      | Some a \<Rightarrow> (Inr a, [Called c True]))"

definition info :: "journal_line \<Rightarrow> unit io" where
  "info l tr = (Inr (), [Logged l])"

fun for_each :: "('a \<Rightarrow> 'b io) \<Rightarrow> 'a list \<Rightarrow> 'b list io" where
  "for_each f [] = ret []"
| "for_each f (x # xs) = bind (f x) (\<lambda>y. bind (for_each f xs) (\<lambda>ys. ret (y # ys)))"

subsection \<open>Strings and paths\<close>

definition digit_char :: "nat \<Rightarrow> char" where
  "digit_char d = ''0123456789abcdef'' ! d"

function base_digits :: "nat \<Rightarrow> nat \<Rightarrow> string" where
  "base_digits b n =
     (if b < 2 \<or> n < b then [digit_char n]
      else base_digits b (n div b) @ [digit_char (n mod b)])"
  by pat_completeness auto
termination
  by (relation "measure (\<lambda>(b, n). n)") auto

text \<open>\<open>"{:d}".format(n)\<close>, \<open>"{:x}".format(n)\<close> and \<open>"{:02x}".format(n)\<close>.\<close>

definition fmt_d :: "int \<Rightarrow> string" where
  "fmt_d n = (if n < 0 then CHR ''-'' # base_digits 10 (nat (- n)) else base_digits 10 (nat n))"

definition fmt_x :: "nat \<Rightarrow> string" where
  "fmt_x n = base_digits 16 n"

definition fmt_02x :: "nat \<Rightarrow> string" where
  "fmt_02x n = (if n < 16 then CHR ''0'' # base_digits 16 n else base_digits 16 n)"

text \<open>\<open>os.path.join\<close> and \<open>os.path.basename\<close> of \<open>posixpath\<close>.\<close>

definition join2 :: "string \<Rightarrow> string \<Rightarrow> string" where
  "join2 path b =
     (if b \<noteq> [] \<and> hd b = CHR ''/'' then b
      else if path = [] \<or> last path = CHR ''/'' then path @ b
      else path @ ''/'' @ b)"

definition path_join :: "string \<Rightarrow> string list \<Rightarrow> string" where
  "path_join a p = fold (\<lambda>b path. join2 path b) p a"

definition basename :: "string \<Rightarrow> string" where
  "basename p = rev (takeWhile (\<lambda>c. c \<noteq> CHR ''/'') (rev p))"

text \<open>\<open>str.rstrip()\<close> removes trailing white space (the ASCII white space here).\<close>

definition is_space :: "char \<Rightarrow> bool" where
  "is_space c = (c \<in> set [CHR '' '', CHR 0x09, CHR 0x0A, CHR 0x0B, CHR 0x0C, CHR 0x0D,
                           CHR 0x1C, CHR 0x1D, CHR 0x1E, CHR 0x1F])"

definition rstrip :: "string \<Rightarrow> string" where
  "rstrip s = rev (dropWhile is_space (rev s))"

text \<open>\<open>int(x)\<close> of a float truncates towards zero.\<close>

definition py_int :: "real \<Rightarrow> int" where
  "py_int x = (if x \<ge> 0 then \<lfloor>x\<rfloor> else \<lceil>x\<rceil>)"

subsection \<open>Subscripts and iteration on parsed JSON\<close>

definition getitem :: "json \<Rightarrow> string \<Rightarrow> error + json" where
  "getitem j k =
     (case j of
        JObj kvs \<Rightarrow> (case map_of kvs k of None \<Rightarrow> Inl KeyError | Some v \<Rightarrow> Inr v)
      | _ \<Rightarrow> Inl TypeError)"

definition getitem_0 :: "json \<Rightarrow> error + json" where
  "getitem_0 j =
     (case j of
        JArr xs \<Rightarrow> (case xs of [] \<Rightarrow> Inl IndexError | x # _ \<Rightarrow> Inr x)
      | JStr s \<Rightarrow> (case s of [] \<Rightarrow> Inl IndexError | c # _ \<Rightarrow> Inr (JStr [c]))
      | JObj kvs \<Rightarrow> Inl KeyError
      | _ \<Rightarrow> Inl TypeError)"

definition py_iter :: "json \<Rightarrow> error + json list" where
  "py_iter j =
     (case j of
        JArr xs \<Rightarrow> Inr xs
      | JObj kvs \<Rightarrow> Inr (map (\<lambda>kv. JStr (fst kv)) kvs)
      | JStr s \<Rightarrow> Inr (map (\<lambda>c. JStr [c]) s)
      | _ \<Rightarrow> Inl TypeError)"

text \<open>The operand of a float multiplication or division: a number, or \<open>TypeError\<close>.\<close>

definition as_number :: "json \<Rightarrow> error + real" where
  "as_number j =
     (case j of
        JInt n \<Rightarrow> Inr (real_of_int n)
      | JReal r \<Rightarrow> Inr r
      | JBool b \<Rightarrow> Inr (if b then 1 else 0)
      | _ \<Rightarrow> Inl TypeError)"

definition then_sum :: "error + 'a \<Rightarrow> ('a \<Rightarrow> error + 'b) \<Rightarrow> error + 'b" where
  "then_sum r f = (case r of Inl e \<Rightarrow> Inl e | Inr a \<Rightarrow> f a)"


fun for_loop :: "('a \<Rightarrow> 's \<Rightarrow> 's io) \<Rightarrow> 'a list \<Rightarrow> 's \<Rightarrow> 's io" where
  "for_loop body [] s = ret s"
| "for_loop body (x # xs) s = bind (body x s) (for_loop body xs)"

subsection \<open>Low-level wrappers\<close>

definition save_file :: "env \<Rightarrow> string \<Rightarrow> string \<Rightarrow> string \<Rightarrow> unit io" where
  "save_file E dirname filename data =
     (let path = path_join dirname [filename]
      in ask (Write_File path data) (\<lambda>tr. file_write E tr path data) (Sys_Exit 1))"

definition read_file :: "env \<Rightarrow> string \<Rightarrow> string \<Rightarrow> string io" where
  "read_file E dirname filename =
     (let path = path_join dirname [filename]
      in bind (ask (Read_File path) (\<lambda>tr. file_read E tr path) (Sys_Exit 1))
           (\<lambda>text. ret (rstrip text)))"

definition create_dir :: "env \<Rightarrow> string \<Rightarrow> unit io" where
  "create_dir E dirname =
     bind (ask (Path_Exists dirname) (\<lambda>tr. Some (path_exists E tr dirname)) (Sys_Exit 1))
       (\<lambda>exists. if \<not> exists
                  then ask (Make_Dirs dirname) (\<lambda>tr. makedirs E tr dirname) (Sys_Exit 1)
                  else ret ())"

definition run :: "env \<Rightarrow> string list \<Rightarrow> completed_process io" where
  "run E args = ask (Subprocess args) (\<lambda>tr. subprocess_run E tr args) (Sys_Exit 1)"

text \<open>\<open>bytes.decode("utf-8")\<close>: a \<open>UnicodeDecodeError\<close> is caught nowhere.\<close>

definition decode :: "env \<Rightarrow> string \<Rightarrow> string io" where
  "decode E b = ask (Decode_Utf8 b) (\<lambda>tr. decode_utf8 E b) UnicodeDecodeError"

subsection \<open>Generic logging functions\<close>

definition save_stdout_stderr :: "env \<Rightarrow> string \<Rightarrow> completed_process \<Rightarrow> unit io" where
  "save_stdout_stderr E dirname result =
     bind (create_dir E dirname)
       (\<lambda>_. bind (if stdout result \<noteq> []
                   then bind (decode E (stdout result)) (save_file E dirname ''stdout.log'')
                   else ret ())
         (\<lambda>_. if stderr result \<noteq> []
               then bind (decode E (stderr result)) (save_file E dirname ''stderr.log'')
               else ret ()))"

definition save_dict :: "env \<Rightarrow> string \<Rightarrow> json \<Rightarrow> unit io" where
  "save_dict E dirname data =
     bind (create_dir E dirname)
       (\<lambda>_. save_file E dirname ''data.json'' (json_dumps E data))"

subsection \<open>sysfs reading functions\<close>

text \<open>The dict comprehension: a repeated name keeps its place and takes the later value.\<close>

definition read_dir_files :: "env \<Rightarrow> string \<Rightarrow> string list \<Rightarrow> (string \<times> json) list io" where
  "read_dir_files E dirname names =
     bind (for_each (\<lambda>n. bind (read_file E dirname n) (\<lambda>text. ret (n, JStr text))) names)
       (\<lambda>kvs. ret (fold (\<lambda>kv d. AList.update (fst kv) (snd kv) d) kvs []))"

definition read_dir :: "env \<Rightarrow> string \<Rightarrow> (string \<times> json) list io" where
  "read_dir E dirname =
     bind (ask (Scan_Dir dirname) (\<lambda>tr. scandir E tr dirname) (Sys_Exit 1))
       (read_dir_files E dirname)"

definition get_queue_info :: "env \<Rightarrow> string \<Rightarrow> (string \<times> json) list io" where
  "get_queue_info E dev = read_dir E (path_join ''/sys/block'' [basename dev, ''queue''])"

definition get_nvme_module_info :: "env \<Rightarrow> (string \<times> json) list io" where
  "get_nvme_module_info E =
     bind (read_dir_files E ''/sys/module/nvme'' [''version'', ''srcversion''])
       (\<lambda>t. bind (read_dir E ''/sys/module/nvme/parameters'')
         (\<lambda>params. ret (AList.update ''parameters'' (JObj params) t)))"

subsection \<open>External utilities\<close>

definition run_lshw :: "env \<Rightarrow> completed_process io" where
  "run_lshw E = run E [''/usr/bin/sudo'', ''/usr/sbin/lshw'', ''-json'', ''-quiet'', ''-sanitize'']"

definition run_lspci :: "env \<Rightarrow> completed_process io" where
  "run_lspci E = run E [''/usr/bin/sudo'', ''/sbin/lspci'', ''-vv'']"

definition run_nvme_list :: "env \<Rightarrow> completed_process io" where
  "run_nvme_list E =
     run E [''/usr/bin/sudo'', ''/usr/sbin/nvme'', ''list'', ''--output-format=json'', ''--verbose'']"

definition run_nvme_id_ctrl :: "env \<Rightarrow> string \<Rightarrow> completed_process io" where
  "run_nvme_id_ctrl E dev =
     run E [''/usr/bin/sudo'', ''/usr/sbin/nvme'', ''id-ctrl'', ''--output-format=json'', dev]"

definition run_nvme_smart_log :: "env \<Rightarrow> string \<Rightarrow> completed_process io" where
  "run_nvme_smart_log E dev =
     run E [''/usr/bin/sudo'', ''/usr/sbin/nvme'', ''smart-log'', ''--output-format=json'', dev]"

definition run_nvme_get_feature :: "env \<Rightarrow> string \<Rightarrow> nat \<Rightarrow> completed_process io" where
  "run_nvme_get_feature E dev fid =
     run E [''/usr/bin/sudo'', ''/usr/sbin/nvme'', ''get-feature'', ''--human-readable'',
            ''--feature-id=0x'' @ fmt_02x fid, dev]"

definition run_nvme_set_feature :: "env \<Rightarrow> string \<Rightarrow> nat \<Rightarrow> nat \<Rightarrow> completed_process io" where
  "run_nvme_set_feature E dev fid val =
     run E [''/usr/bin/sudo'', ''/usr/sbin/nvme'', ''set-feature'',
            ''--feature-id=0x'' @ fmt_02x fid, ''--value=0x'' @ fmt_x val, dev]"

definition run_nvme_format :: "env \<Rightarrow> string \<Rightarrow> completed_process io" where
  "run_nvme_format E dev =
     run E [''/usr/bin/sudo'', ''/usr/sbin/nvme'', ''format'', ''-f'', ''-l0'', dev]"

subsection \<open>nvme get-feature parser\<close>

definition FIDS :: "nat list" where
  "FIDS = [0x01, 0x02, 0x04, 0x05, 0x06, 0x07, 0x08, 0x09, 0x0A]"

text \<open>A failed match ends the program with \<open>sys.exit(1)\<close>; \<open>groupdict()\<close> is a dict of strings.\<close>

definition match_or_exit :: "env \<Rightarrow> regex \<Rightarrow> string \<Rightarrow> (string \<times> json) list io" where
  "match_or_exit E p l =
     bind (ask (Regex_Match p l) (\<lambda>tr. regex_match E p l) (Sys_Exit 1))
       (\<lambda>groups. ret (map (\<lambda>kv. (fst kv, JStr (snd kv))) groups))"

definition get_nvme_feature :: "env \<Rightarrow> string \<Rightarrow> nat \<Rightarrow> json io" where
  "get_nvme_feature E dev fid =
     bind (run_nvme_get_feature E dev fid)
       (\<lambda>r. bind (decode E (stdout r))
         (\<lambda>text. case splitlines E text of
             [] \<Rightarrow> abort IndexError
           | l0 # ls \<Rightarrow>
               bind (match_or_exit E P1 l0)
                 (\<lambda>f. bind (for_each (\<lambda>l. bind (match_or_exit E P2 l) (\<lambda>d. ret (JObj d))) ls)
                   (\<lambda>hr. ret (JObj (AList.update ''human-readable'' (JArr hr) f))))))"

definition get_nvme_features :: "env \<Rightarrow> string \<Rightarrow> json io" where
  "get_nvme_features E dev =
     bind (for_each (get_nvme_feature E dev) FIDS) (\<lambda>result. ret (JArr result))"

subsection \<open>nvme get-list processing\<close>

fun find_in_namespaces :: "json list \<Rightarrow> string \<Rightarrow> error + json option" where
  "find_in_namespaces [] ns = Inr None"
| "find_in_namespaces (n # rest) ns =
     then_sum (getitem n ''NameSpace'')
       (\<lambda>v. if v = JStr ns then Inr (Some n) else find_in_namespaces rest ns)"

fun find_in_controllers :: "json list \<Rightarrow> string \<Rightarrow> error + json option" where
  "find_in_controllers [] ns = Inr None"
| "find_in_controllers (c # rest) ns =
     then_sum (getitem c ''Namespaces'')
       (\<lambda>v. then_sum (py_iter v)
         (\<lambda>nss. then_sum (find_in_namespaces nss ns)
           (\<lambda>found. case found of
               Some n \<Rightarrow> Inr (Some n)
             | None \<Rightarrow> find_in_controllers rest ns)))"

fun find_in_devices :: "json list \<Rightarrow> string \<Rightarrow> error + json option" where
  "find_in_devices [] ns = Inr None"
| "find_in_devices (d # rest) ns =
     then_sum (getitem d ''Controllers'')
       (\<lambda>v. then_sum (py_iter v)
         (\<lambda>cs. then_sum (find_in_controllers cs ns)
           (\<lambda>found. case found of
               Some n \<Rightarrow> Inr (Some n)
             | None \<Rightarrow> find_in_devices rest ns)))"

definition get_nvme_namespace :: "env \<Rightarrow> string \<Rightarrow> string \<Rightarrow> json io" where
  "get_nvme_namespace E data dev =
     bind (ask (Json_Loads data) (\<lambda>tr. json_loads E data) (Sys_Exit 1))
       (\<lambda>j. let ns = basename dev
             in bind (lift (then_sum (getitem j ''Devices'')
                        (\<lambda>v. then_sum (py_iter v) (\<lambda>ds. find_in_devices ds ns))))
                  (\<lambda>found. case found of
                      Some n \<Rightarrow> ret n
                    | None \<Rightarrow> abort (Sys_Exit 1)))"

subsection \<open>fio wrapper\<close>

text \<open>The \<open>json.loads\<close> of \<open>run_and_save_fio\<close> stands outside every handler.\<close>

definition run_and_save_fio :: "env \<Rightarrow> string \<Rightarrow> string \<Rightarrow> json io" where
  "run_and_save_fio E dirname job =
     bind (create_dir E dirname)
       (\<lambda>_. bind (save_file E dirname ''job.fio'' job)
         (\<lambda>_. bind (run E [''/usr/bin/sudo'', ''/usr/bin/fio'', ''--output-format=json+'',
                            ''--output='' @ path_join dirname [''output.json''],
                            path_join dirname [''job.fio'']])
           (\<lambda>result. bind (save_stdout_stderr E dirname result)
             (\<lambda>_. bind (read_file E dirname ''output.json'')
               (\<lambda>text. ask (Json_Loads text) (\<lambda>tr. json_loads E text) JSONDecodeError)))))"

subsection \<open>Template engine wrapper\<close>

definition render :: "env \<Rightarrow> template \<Rightarrow> (string \<times> pyval) list \<Rightarrow> string io" where
  "render E tpl kwargs = ask (Render tpl kwargs) (\<lambda>tr. jinja_render E tpl kwargs) (Sys_Exit 1)"


subsection \<open>IOPS test\<close>

record args =
  dev :: string
  test :: bool
  mode :: string
  "output" :: string

text \<open>The three lists of steady-state tracking variables.\<close>

record tracked =
  rr0_4k_iops :: "real list"
  rr65_64k_iops :: "real list"
  rr100_1024k_iops :: "real list"

definition MEASUREMENT_WINDOW :: nat where
  "MEASUREMENT_WINDOW = 5"

text \<open>A statement whose value is dropped, followed by the rest of the block.\<close>

definition then_io :: "'a io \<Rightarrow> 'b io \<Rightarrow> 'b io" where
  "then_io m k = bind m (\<lambda>_. k)"

text \<open>
  The idiom \<open>save_stdout_stderr(os.path.join(args.output, sub), run_...())\<close>: the
  subprocess runs first, then its output is saved.
\<close>

definition save_run :: "env \<Rightarrow> args \<Rightarrow> string list \<Rightarrow> completed_process io \<Rightarrow> unit io" where
  "save_run E a sub m = bind m (save_stdout_stderr E (path_join (output a) sub))"

text \<open>Record test conditions; the result is \<open>physical_size\<close>, in KiB.\<close>

definition physical_size_of :: "json \<Rightarrow> error + int" where
  "physical_size_of ns =
     then_sum (getitem ns ''PhysicalSize'')
       (\<lambda>v. then_sum (as_number v) (\<lambda>x. Inr (py_int (x / 1024))))"

definition iops_conditions :: "env \<Rightarrow> args \<Rightarrow> int io" where
  "iops_conditions E a =
     then_io (save_run E a [''platform/lshw''] (run_lshw E))
    (then_io (save_run E a [''platform/lspci''] (run_lspci E))
    (then_io (save_run E a [''device/nvme-id-ctrl''] (run_nvme_id_ctrl E (dev a)))
    (then_io (save_run E a [''device/nvme-smart-log''] (run_nvme_smart_log E (dev a)))
    (then_io (bind (get_nvme_module_info E)
                (\<lambda>d. save_dict E (path_join (output a) [''settings/nvme-module-config'']) (JObj d)))
    (then_io (bind (get_nvme_features E (dev a))
                (save_dict E (path_join (output a) [''settings/nvme-features''])))
    (then_io (bind (get_queue_info E (dev a))
                (\<lambda>d. save_dict E (path_join (output a) [''settings/queue'']) (JObj d)))
    (bind (run_nvme_list E)
       (\<lambda>nvme_list_result.
          then_io (save_stdout_stderr E (path_join (output a) [''device/nvme-list''])
                     nvme_list_result)
         (bind (decode E (stdout nvme_list_result))
            (\<lambda>data. bind (get_nvme_namespace E data (dev a))
               (\<lambda>ns. lift (physical_size_of ns))))))))))))"

text \<open>Step 1: purge the device, unless in test mode.\<close>

definition iops_purge :: "env \<Rightarrow> args \<Rightarrow> unit io" where
  "iops_purge E a =
     (if \<not> test a then save_run E a [''purge/nvme-format''] (run_nvme_format E (dev a))
      else ret ())"

text \<open>
  Step 2.1: the mode sets the write cache and fixes \<open>active_range\<close>, \<open>queue_depth\<close>
  and \<open>thread_count\<close>.
\<close>

definition iops_mode :: "env \<Rightarrow> args \<Rightarrow> int \<Rightarrow> (int \<times> int \<times> int) io" where
  "iops_mode E a physical_size =
     (if mode a = ''PTS-E'' then
        then_io (save_run E a [''pre-conditioning/nvme-set-feature'']
                   (run_nvme_set_feature E (dev a) 0x06 0))
          (ret (physical_size, 32, 4))
      else if mode a = ''PTS-C'' then
        then_io (save_run E a [''pre-conditioning/nvme-set-feature'']
                   (run_nvme_set_feature E (dev a) 0x06 1))
          (ret (py_int (0.75 * real_of_int physical_size), 16, 2))
      else abort (Sys_Exit 1))"

text \<open>Step 2.2: the parameters of the workload-independent pre-conditioning job.\<close>

definition wipc_io_size :: "int \<Rightarrow> int \<Rightarrow> int" where
  "wipc_io_size physical_size thread_count =
     py_int (real_of_int (2 * physical_size) / real_of_int thread_count)"

definition wipc_kwargs :: "args \<Rightarrow> int \<Rightarrow> int \<Rightarrow> int \<Rightarrow> int \<Rightarrow> (string \<times> pyval) list" where
  "wipc_kwargs a physical_size active_range queue_depth thread_count =
     [(''device'', PStr (dev a)),
      (''queue_depth'', PInt queue_depth),
      (''thread_count'', PInt thread_count),
      (''seed'', PInt 0xDEADBEEF),
      (''size'', PStr (fmt_d active_range @ ''k'')),
      (''io_size'', PStr (fmt_d (wipc_io_size physical_size thread_count) @ ''k''))]"

definition iops_wipc :: "env \<Rightarrow> args \<Rightarrow> int \<Rightarrow> int \<Rightarrow> int \<Rightarrow> int \<Rightarrow> unit io" where
  "iops_wipc E a physical_size active_range queue_depth thread_count =
     bind (render E WIPC_JOB_TPL
             (wipc_kwargs a physical_size active_range queue_depth thread_count))
       (\<lambda>job. if test a then ret ()
               else then_io (run_and_save_fio E
                               (path_join (output a) [''pre-conditioning/wipc'']) job)
                      (ret ()))"

text \<open>The parameters that \<open>iops\<close> fixes before the loop and never changes
  (\<open>size_arg\<close> is the variable \<open>size\<close>).\<close>

record session =
  queue_depth :: int
  thread_count :: int
  seed :: int
  size_arg :: string
  runtime :: string

text \<open>Step 3.2.1: one cell of a round.\<close>

definition cell_dir :: "args \<Rightarrow> nat \<Rightarrow> nat \<Rightarrow> string \<Rightarrow> string \<Rightarrow> string" where
  "cell_dir a round_num rr bs leaf =
     path_join (output a)
       [''round-'' @ fmt_d (int round_num), ''rr-'' @ fmt_d (int rr), ''bs-'' @ bs, leaf]"

definition wdpc_kwargs :: "args \<Rightarrow> session \<Rightarrow> nat \<Rightarrow> string \<Rightarrow> (string \<times> pyval) list" where
  "wdpc_kwargs a c rr bs =
     [(''device'', PStr (dev a)),
      (''queue_depth'', PInt (queue_depth c)),
      (''thread_count'', PInt (thread_count c)),
      (''seed'', PInt (seed c)),
      (''size'', PStr (size_arg c)),
      (''read_rate'', PInt (int rr)),
      (''block_size'', PStr bs),
      (''runtime'', PStr (runtime c))]"

text \<open>
  The counter \<open>fio_result["jobs"][0][direction]["iops"]\<close>, as the operand of a float
  multiplication.
\<close>

definition job_iops :: "json \<Rightarrow> string \<Rightarrow> error + real" where
  "job_iops fio_result direction =
     then_sum (getitem fio_result ''jobs'')
       (\<lambda>jobs. then_sum (getitem_0 jobs)
         (\<lambda>job. then_sum (getitem job direction)
           (\<lambda>d. then_sum (getitem d ''iops'') as_number)))"

text \<open>mean iops = p1 * read iops + p2 * write iops, where p1 = rr, p2 = 1 - rr.\<close>

definition mean_iops :: "nat \<Rightarrow> json \<Rightarrow> error + real" where
  "mean_iops rr fio_result =
     then_sum (job_iops fio_result ''read'')
       (\<lambda>r. let iops = (real rr / 100.0) * r
             in then_sum (job_iops fio_result ''write'')
                  (\<lambda>w. Inr (iops + (1 - real rr / 100.0) * w)))"

definition track :: "nat \<Rightarrow> string \<Rightarrow> real \<Rightarrow> tracked \<Rightarrow> tracked" where
  "track rr bs iops t =
     (if rr = 0 \<and> bs = ''4k'' then t\<lparr>rr0_4k_iops := rr0_4k_iops t @ [iops]\<rparr>
      else if rr = 65 \<and> bs = ''64k'' then t\<lparr>rr65_64k_iops := rr65_64k_iops t @ [iops]\<rparr>
      else if rr = 100 \<and> bs = ''1024k'' then t\<lparr>rr100_1024k_iops := rr100_1024k_iops t @ [iops]\<rparr>
      else t)"

definition iops_cell ::
  "env \<Rightarrow> args \<Rightarrow> session \<Rightarrow> nat \<Rightarrow> nat \<Rightarrow> string \<Rightarrow> tracked \<Rightarrow> tracked io" where
  "iops_cell E a c round_num rr bs t =
     then_io (bind (run_nvme_smart_log E (dev a))
                (save_stdout_stderr E (cell_dir a round_num rr bs ''smart-before'')))
    (bind (render E WDPC_IOPS_JOB_TPL (wdpc_kwargs a c rr bs))
       (\<lambda>job. bind (run_and_save_fio E (cell_dir a round_num rr bs ''wdpc'') job)
          (\<lambda>fio_result.
             then_io (bind (run_nvme_smart_log E (dev a))
                        (save_stdout_stderr E (cell_dir a round_num rr bs ''smart-after'')))
            (bind (lift (mean_iops rr fio_result))
               (\<lambda>iops. then_io (info (Cell_Iops round_num rr bs iops))
                          (ret (track rr bs iops t)))))))"

text \<open>Steps 3.2.1 and 3.2.1.1: the two nested loops of a round.\<close>

definition mix_ratios :: "nat list" where
  "mix_ratios = [100, 95, 65, 50, 35, 5, 0]"

definition block_sizes :: "string list" where
  "block_sizes = [''1024k'', ''128k'', ''64k'', ''32k'', ''16k'', ''8k'', ''4k'', ''512b'']"

definition iops_round :: "env \<Rightarrow> args \<Rightarrow> session \<Rightarrow> nat \<Rightarrow> tracked \<Rightarrow> tracked io" where
  "iops_round E a c round_num t =
     for_loop (\<lambda>rr. for_loop (\<lambda>bs. iops_cell E a c round_num rr bs) block_sizes)
       mix_ratios t"

text \<open>The check after a round: \<open>and\<close> stops at the first operand that is \<open>False\<close>.\<close>

definition all_steady :: "tracked \<Rightarrow> error + bool" where
  "all_steady t =
     then_sum (in_steady_state (rr0_4k_iops t) MEASUREMENT_WINDOW)
       (\<lambda>b1. if \<not> b1 then Inr False
              else then_sum (in_steady_state (rr65_64k_iops t) MEASUREMENT_WINDOW)
                (\<lambda>b2. if \<not> b2 then Inr False
                       else in_steady_state (rr100_1024k_iops t) MEASUREMENT_WINDOW))"

text \<open>
  Step 3.2: the loop over the round numbers. Its result is the value that \<open>round_num\<close>
  holds when the loop is left (none before the first round) and the three lists.
\<close>

fun iops_loop ::
  "env \<Rightarrow> args \<Rightarrow> session \<Rightarrow> nat list \<Rightarrow> nat option \<Rightarrow> tracked \<Rightarrow> (nat option \<times> tracked) io" where
  "iops_loop E a c [] round_num t = ret (round_num, t)"
| "iops_loop E a c (n # ns) round_num t =
     bind (iops_round E a c n t)
       (\<lambda>t'. then_io (info (Round_Finished n (rr0_4k_iops t') (rr65_64k_iops t')
                              (rr100_1024k_iops t')))
         (bind (lift (all_steady t'))
            (\<lambda>steady. if steady then then_io (info Steady_Break) (ret (Some n, t'))
                       else iops_loop E a c ns (Some n) t')))"

text \<open>The test after the loop.\<close>

definition iops_report :: "nat option \<Rightarrow> unit io" where
  "iops_report round_num =
     (case round_num of
        None \<Rightarrow> abort UnboundLocalError
      | Some n \<Rightarrow> if n = 25 then info Not_Reached else ret ())"

definition no_tracked :: tracked where
  "no_tracked = \<lparr>rr0_4k_iops = [], rr65_64k_iops = [], rr100_1024k_iops = []\<rparr>"

definition iops_measure :: "env \<Rightarrow> args \<Rightarrow> session \<Rightarrow> (nat option \<times> tracked) io" where
  "iops_measure E a c = iops_loop E a c [1 ..< 26] None no_tracked"

text \<open>Step 3.2 and the test after it: the measurement phase of \<open>iops\<close>.\<close>

definition iops_session :: "env \<Rightarrow> args \<Rightarrow> session \<Rightarrow> (nat option \<times> tracked) io" where
  "iops_session E a c =
     bind (iops_measure E a c)
       (\<lambda>(round_num, t). then_io (iops_report round_num) (ret (round_num, t)))"

definition iops :: "env \<Rightarrow> args \<Rightarrow> (nat option \<times> tracked) io" where
  "iops E a =
     bind (iops_conditions E a)
       (\<lambda>physical_size.
          then_io (iops_purge E a)
         (bind (iops_mode E a physical_size)
            (\<lambda>(active_range, queue_depth, thread_count).
               let runtime = (if test a then ''10s'' else ''1m'');
                   seed = 0xDEADBEEF
               in then_io (iops_wipc E a physical_size active_range queue_depth thread_count)
                 (let size = fmt_d active_range @ ''k'';
                      c = \<lparr>queue_depth = queue_depth, thread_count = thread_count,
                           seed = seed, size_arg = size, runtime = runtime\<rparr>
                  in iops_session E a c))))"

subsection \<open>The stability criterion in the words of the specification\<close>

text \<open>
  The slope of the ordinary least-squares line through the points \<open>(1, y\<^sub>1), \<dots>, (n, y\<^sub>n)\<close>,
  by the textbook formula; it is compared with what the program computes.
\<close>

definition ols_slope :: "real list \<Rightarrow> real" where
  "ols_slope ys =
     (let n = real (length ys);
          xs = map real [1 ..< length ys + 1];
          sx = sum_list xs;
          sy = sum_list ys;
          sxy = sum_list (map (\<lambda>(x, y). x * y) (zip xs ys));
          sxx = sum_list (map (\<lambda>x. x * x) xs)
      in (n * sxy - sx * sy) / (n * sxx - sx * sx))"

text \<open>Strictly less, on doubles: false when an operand is not a number.\<close>

fun flt :: "double \<Rightarrow> double \<Rightarrow> bool" where
  "flt (Finite x) (Finite y) = (x < y)"
| "flt NaN b = False"
| "flt a NaN = False"
| "flt a NInf = False"
| "flt PInf b = False"
| "flt a b = True"

text \<open>
  The floats \<open>1065.376\<close> and \<open>860.496\<close>. A window of four times the first and once the
  second has a range of exactly one fifth of its mean.
\<close>

definition boundary_high :: real where
  "boundary_high = 4685573199813935 / 2 ^ 42"

definition boundary_low :: real where
  "boundary_low = 7569002861237895 / 2 ^ 43"

subsection \<open>Observations on a trace\<close>

text \<open>A call that raised.\<close>

fun failed :: "event \<Rightarrow> bool" where
  "failed (Called c ok) = (\<not> ok)"
| "failed (Logged l) = False"

text \<open>
  A run is fail-fast when no event before the last one is a failed call, and a failed
  last call comes with an error result.
\<close>

fun fail_fast :: "(error + 'a) \<times> event list \<Rightarrow> bool" where
  "fail_fast (r, evs) =
     (list_all (\<lambda>e. \<not> failed e) (butlast evs) \<and> (evs = [] \<or> \<not> failed (last evs) \<or> isl r))"

text \<open>
  Whether a collaborator lets a call succeed after the trace so far: the call raises
  exactly when the answer of the environment is \<open>None\<close>. \<open>os.path.exists\<close> never raises.
\<close>

fun answers :: "env \<Rightarrow> event list \<Rightarrow> call \<Rightarrow> bool" where
  "answers E tr (Subprocess cmd) = (subprocess_run E tr cmd \<noteq> None)"
| "answers E tr (Write_File p x) = (file_write E tr p x \<noteq> None)"
| "answers E tr (Read_File p) = (file_read E tr p \<noteq> None)"
| "answers E tr (Path_Exists p) = True"
| "answers E tr (Make_Dirs p) = (makedirs E tr p \<noteq> None)"
| "answers E tr (Scan_Dir p) = (scandir E tr p \<noteq> None)"
| "answers E tr (Decode_Utf8 s) = (decode_utf8 E s \<noteq> None)"
| "answers E tr (Json_Loads s) = (json_loads E s \<noteq> None)"
| "answers E tr (Regex_Match p l) = (regex_match E p l \<noteq> None)"
| "answers E tr (Render tpl kw) = (jinja_render E tpl kw \<noteq> None)"

text \<open>
  The events \<open>evs\<close> that follow the trace \<open>tr\<close> record every call with the answer that
  the environment gave at that moment.
\<close>

fun faithful :: "env \<Rightarrow> event list \<Rightarrow> event list \<Rightarrow> bool" where
  "faithful E tr [] = True"
| "faithful E tr (Called c ok # evs) =
     (ok = answers E tr c \<and> faithful E (tr @ [Called c ok]) evs)"
| "faithful E tr (Logged l # evs) = faithful E (tr @ [Logged l]) evs"

definition honest :: "env \<Rightarrow> 'a io \<Rightarrow> bool" where
  "honest E m = (\<forall>tr. faithful E tr (snd (m tr)))"

text \<open>The command line that runs fio on the job file of a directory.\<close>

definition fio_cmd :: "string \<Rightarrow> string list" where
  "fio_cmd dirname =
     [''/usr/bin/sudo'', ''/usr/bin/fio'', ''--output-format=json+'',
      ''--output='' @ path_join dirname [''output.json''], path_join dirname [''job.fio'']]"

text \<open>The two steps that tell which workload a cell ran: rendering a job and running fio.\<close>

fun is_cell_step :: "event \<Rightarrow> bool" where
  "is_cell_step (Called (Subprocess cmd) ok) = (take 2 cmd = [''/usr/bin/sudo'', ''/usr/bin/fio''])"
| "is_cell_step (Called (Render tpl kwargs) ok) = True"
| "is_cell_step e = False"

fun is_round_line :: "event \<Rightarrow> bool" where
  "is_round_line (Logged (Round_Finished n s1 s2 s3)) = True"
| "is_round_line e = False"

text \<open>The cells of a round, in the order of the two nested loops.\<close>

definition workload_matrix :: "(nat \<times> string) list" where
  "workload_matrix = concat (map (\<lambda>rr. map (\<lambda>bs. (rr, bs)) block_sizes) mix_ratios)"

text \<open>A computation is fail-fast when each of its runs is, whatever happened before.\<close>

definition ff :: "'a io \<Rightarrow> bool" where
  "ff m = (\<forall>tr. fail_fast (m tr))"

text \<open>A computation emits only events of a kind.\<close>

definition only :: "(event \<Rightarrow> bool) \<Rightarrow> 'a io \<Rightarrow> bool" where
  "only P m = (\<forall>tr. list_all P (snd (m tr)))"

text \<open>The command line of \<open>run_nvme_smart_log\<close>.\<close>

definition smart_log_cmd :: "string \<Rightarrow> string list" where
  "smart_log_cmd d =
     [''/usr/bin/sudo'', ''/usr/sbin/nvme'', ''smart-log'', ''--output-format=json'', d]"

text \<open>The blend of the read and write counters for a mix ratio, as the specification states it.\<close>

definition blend :: "nat \<Rightarrow> real \<Rightarrow> real \<Rightarrow> real" where
  "blend rr r w = (real rr / 100) * r + (1 - real rr / 100) * w"

text \<open>
  A list \<open>ys'\<close> is \<open>ys\<close> with \<open>k\<close> values appended; the three lists of \<open>t'\<close> are
  those of \<open>t\<close> with \<open>k1\<close>, \<open>k2\<close> and \<open>k3\<close> values appended.
\<close>

definition grown :: "real list \<Rightarrow> real list \<Rightarrow> nat \<Rightarrow> bool" where
  "grown ys ys' k = (length ys' = length ys + k \<and> take (length ys) ys' = ys)"

definition extended :: "tracked \<Rightarrow> tracked \<Rightarrow> nat \<Rightarrow> nat \<Rightarrow> nat \<Rightarrow> bool" where
  "extended t t' k1 k2 k3 =
     (grown (rr0_4k_iops t) (rr0_4k_iops t') k1
      \<and> grown (rr65_64k_iops t) (rr65_64k_iops t') k2
      \<and> grown (rr100_1024k_iops t) (rr100_1024k_iops t') k3)"

text \<open>The three lists as they were after round \<open>m\<close>: their first \<open>m\<close> values.\<close>

definition first_rounds :: "nat \<Rightarrow> tracked \<Rightarrow> tracked" where
  "first_rounds m t =
     \<lparr>rr0_4k_iops = take m (rr0_4k_iops t),
      rr65_64k_iops = take m (rr65_64k_iops t),
      rr100_1024k_iops = take m (rr100_1024k_iops t)\<rparr>"

text \<open>All three lists have the same given length.\<close>

definition lengths :: "tracked \<Rightarrow> nat \<Rightarrow> bool" where
  "lengths t n =
     (length (rr0_4k_iops t) = n \<and> length (rr65_64k_iops t) = n
      \<and> length (rr100_1024k_iops t) = n)"

text \<open>The journal line after round \<open>n\<close> of a session that ends with the lists \<open>t\<close>.\<close>

definition round_line :: "tracked \<Rightarrow> nat \<Rightarrow> event" where
  "round_line t n =
     Logged (Round_Finished n (take n (rr0_4k_iops t)) (take n (rr65_64k_iops t))
               (take n (rr100_1024k_iops t)))"

text \<open>The two steps of a completed cell of a round: its job rendered, fio run on it.\<close>

definition cell_steps :: "args \<Rightarrow> session \<Rightarrow> nat \<Rightarrow> nat \<times> string \<Rightarrow> event list" where
  "cell_steps a c n cell =
     [Called (Render WDPC_IOPS_JOB_TPL (wdpc_kwargs a c (fst cell) (snd cell))) True,
      Called (Subprocess (fio_cmd (cell_dir a n (fst cell) (snd cell) ''wdpc''))) True]"

subsection \<open>A simulated environment\<close>

text \<open>
  Every file-system call and every library call succeeds; a subprocess succeeds when
  \<open>ok\<close> accepts its command line, and prints nothing. The text of a file is its own
  path, so that the parsed fio output can depend on the cell: \<open>json.loads\<close> returns an
  object with the list of devices and with one job whose read and write counters are
  given by \<open>f\<close> on the text.
\<close>

definition sim_json :: "json \<Rightarrow> (string \<Rightarrow> real \<times> real) \<Rightarrow> string \<Rightarrow> json" where
  "sim_json devices f s =
     JObj [(''Devices'', devices),
           (''jobs'', JArr [JObj [(''read'', JObj [(''iops'', JReal (fst (f s)))]),
                                  (''write'', JObj [(''iops'', JReal (snd (f s)))])]])]"

definition sim_env :: "(string list \<Rightarrow> bool) \<Rightarrow> json \<Rightarrow> (string \<Rightarrow> real \<times> real) \<Rightarrow> env" where
  "sim_env ok devices f =
     \<lparr>subprocess_run = (\<lambda>tr cmd. if ok cmd then Some \<lparr>stdout = [], stderr = []\<rparr> else None),
      file_write = (\<lambda>tr p x. Some ()),
      file_read = (\<lambda>tr p. Some p),
      path_exists = (\<lambda>tr p. True),
      makedirs = (\<lambda>tr p. Some ()),
      scandir = (\<lambda>tr p. Some []),
      decode_utf8 = Some,
      json_loads = (\<lambda>s. Some (sim_json devices f s)),
      json_dumps = (\<lambda>j. []),
      splitlines = (\<lambda>s. [''get-feature'']),
      regex_match = (\<lambda>p l. Some []),
      jinja_render = (\<lambda>tpl kwargs. Some [])\<rparr>"

text \<open>The text of the fio output of a cell in the simulated environment.\<close>

definition sim_text :: "args \<Rightarrow> nat \<Rightarrow> nat \<Rightarrow> string \<Rightarrow> string" where
  "sim_text a n rr bs = rstrip (path_join (cell_dir a n rr bs ''wdpc'') [''output.json''])"

text \<open>
  A computation that returns \<open>a\<close> whatever happened before, and whose events of the
  kind \<open>K\<close> are \<open>ls\<close>.
\<close>

definition yields :: "(event \<Rightarrow> bool) \<Rightarrow> 'a io \<Rightarrow> 'a \<Rightarrow> event list \<Rightarrow> bool" where
  "yields K m a ls = (\<forall>tr. fst (m tr) = Inr a \<and> filter K (snd (m tr)) = ls)"

text \<open>A kind of events that holds no call.\<close>

definition quiet :: "(event \<Rightarrow> bool) \<Rightarrow> bool" where
  "quiet K = (\<forall>c ok. \<not> K (Called c ok))"

text \<open>A kind of events that holds neither a call nor the journal line of a cell.\<close>

definition loop_kind :: "(event \<Rightarrow> bool) \<Rightarrow> bool" where
  "loop_kind K = (quiet K \<and> (\<forall>n rr bs v. \<not> K (Logged (Cell_Iops n rr bs v))))"

text \<open>The sample arguments and session parameters of the examples.\<close>

definition sample_args :: args where
  "sample_args = \<lparr>dev = ''/dev/nvme0n1'', test = True, mode = ''PTS-C'', output = ''out''\<rparr>"

definition sample_session :: session where
  "sample_session =
     \<lparr>queue_depth = 16, thread_count = 2, seed = 0xDEADBEEF, size_arg = ''1000k'',
      runtime = ''10s''\<rparr>"

fun is_journal :: "event \<Rightarrow> bool" where
  "is_journal (Logged l) = True"
| "is_journal (Called c ok) = False"

text \<open>The blended metric of a cell in the simulated environment.\<close>

definition sim_value :: "(string \<Rightarrow> real \<times> real) \<Rightarrow> args \<Rightarrow> nat \<Rightarrow> nat \<Rightarrow> string \<Rightarrow> real" where
  "sim_value f a n rr bs =
     blend rr (fst (f (sim_text a n rr bs))) (snd (f (sim_text a n rr bs)))"

text \<open>
  In the words of the specification: all three tracked series are independently
  stable, each judged with the window size 5.
\<close>

definition all_stable :: "tracked \<Rightarrow> bool" where
  "all_stable t =
     (in_steady_state (rr0_4k_iops t) 5 = Inr True
      \<and> in_steady_state (rr65_64k_iops t) 5 = Inr True
      \<and> in_steady_state (rr100_1024k_iops t) 5 = Inr True)"

text \<open>
  What a run of the loop over the rounds \<open>j + 1, \<dots>, m - 1\<close> looks like, started with
  lists \<open>t\<close> of length \<open>j\<close>: \<open>k\<close> is the last completed round and \<open>s\<close> are the lists
  after it.
\<close>

definition loop_post ::
  "env \<Rightarrow> args \<Rightarrow> session \<Rightarrow> nat \<Rightarrow> nat \<Rightarrow> nat option \<Rightarrow> tracked \<Rightarrow>
   (error + nat option \<times> tracked) \<Rightarrow> event list \<Rightarrow> nat \<Rightarrow> tracked \<Rightarrow> bool" where
  "loop_post E a c j m rn t res evs k s =
     (j \<le> k \<and> k < m \<and> lengths s k \<and> first_rounds j s = t
      \<and> filter is_round_line evs = map (round_line s) [Suc j ..< Suc k]
      \<and> (\<forall>i. j < i \<and> i < k \<longrightarrow> \<not> all_stable (first_rounds i s))
      \<and> (case res of
            Inr (rn', t') \<Rightarrow>
              t' = s \<and> rn' = (if k = j then rn else Some k)
              \<and> (Logged Steady_Break \<in> set evs \<longleftrightarrow> k \<noteq> j \<and> all_stable s)
              \<and> (k = j \<longrightarrow> Suc j = m)
              \<and> (k \<noteq> j \<and> \<not> all_stable s \<longrightarrow> Suc k = m)
          | Inl e \<Rightarrow>
              \<exists>n t' tr' evs'. j < n \<and> n < m \<and> iops_round E a c n t' tr' = (Inl e, evs')))"

text \<open>The three lists after \<open>n\<close> completed rounds in the simulated environment.\<close>

definition sim_tracked :: "(string \<Rightarrow> real \<times> real) \<Rightarrow> args \<Rightarrow> nat \<Rightarrow> tracked" where
  "sim_tracked f a n =
     \<lparr>rr0_4k_iops = map (\<lambda>i. sim_value f a i 0 ''4k'') [1 ..< Suc n],
      rr65_64k_iops = map (\<lambda>i. sim_value f a i 65 ''64k'') [1 ..< Suc n],
      rr100_1024k_iops = map (\<lambda>i. sim_value f a i 100 ''1024k'') [1 ..< Suc n]\<rparr>"

text \<open>
  Five environments. In \<open>steady_env\<close> the counters never change; in \<open>broken_env\<close>
  \<open>lspci\<close> cannot be run and in \<open>unreadable_env\<close> no file can be read; in \<open>late_env\<close>
  the cell (0% read, 4k) doubles its counters in the rounds 5, 10, 15 and 20, and in
  \<open>restless_env\<close> in round 25 as well.
\<close>

definition steady_env :: env where
  "steady_env = sim_env (\<lambda>cmd. True) JNull (\<lambda>s. (1000, 500))"

definition broken_env :: env where
  "broken_env =
     sim_env (\<lambda>cmd. cmd \<noteq> [''/usr/bin/sudo'', ''/sbin/lspci'', ''-vv'']) JNull (\<lambda>s. (0, 0))"

definition unreadable_env :: env where
  "unreadable_env = (sim_env (\<lambda>cmd. True) JNull (\<lambda>s. (0, 0)))\<lparr>file_read := (\<lambda>tr p. None)\<rparr>"

text \<open>
  A device of 1001 KiB in enterprise mode: \<open>nvme list\<close> reports one namespace of
  1025024 bytes, and the session is not a test run.
\<close>

definition odd_devices :: json where
  "odd_devices =
     JArr [JObj [(''Controllers'',
       JArr [JObj [(''Namespaces'',
         JArr [JObj [(''NameSpace'', JStr ''nvme0n1''), (''PhysicalSize'', JInt 1025024)]])]])]]"

definition odd_env :: env where
  "odd_env = sim_env (\<lambda>cmd. True) odd_devices (\<lambda>s. (1000, 500))"

definition odd_args :: args where
  "odd_args = \<lparr>dev = ''/dev/nvme0n1'', test = False, mode = ''PTS-E'', output = ''out''\<rparr>"

definition spike_counters :: "nat list \<Rightarrow> string \<Rightarrow> real \<times> real" where
  "spike_counters ns s =
     (if s \<in> set (map (\<lambda>n. sim_text sample_args n 0 ''4k'') ns)
      then (200, 200) else (100, 100))"

definition late_env :: env where
  "late_env = sim_env (\<lambda>cmd. True) JNull (spike_counters [5, 10, 15, 20])"

definition restless_env :: env where
  "restless_env = sim_env (\<lambda>cmd. True) JNull (spike_counters [5, 10, 15, 20, 25])"

text \<open>The two journal lines that report how the loop ended.\<close>

fun is_report :: "event \<Rightarrow> bool" where
  "is_report (Logged Steady_Break) = True"
| "is_report (Logged Not_Reached) = True"
| "is_report e = False"

section \<open>Rounding to a double\<close>

lemma pow2_pos: "0 < pow2 k"
  by (simp add: pow2_def)

lemma round_half_even_of_int: "round_half_even (of_int k) = k"
  by (simp add: round_half_even_def)

lemma round_half_even_nonneg:
  assumes "0 \<le> q"
  shows "0 \<le> round_half_even q"
proof -
  have "0 \<le> \<lfloor>q\<rfloor>"
    using assms by simp
  then show ?thesis
    by (auto simp: round_half_even_def Let_def)
qed

lemma rnd_zero: "rnd 0 = Finite 0"
  by (simp add: rnd_def)

lemma rnd_not_NaN: "rnd x \<noteq> NaN"
  by (simp add: rnd_def Let_def)

lemma rnd_nonneg:
  assumes "0 \<le> x"
  obtains "rnd x = PInf" | y where "rnd x = Finite y" and "0 \<le> y"
proof (cases "x = 0")
  case True
  then have "rnd x = Finite 0" by (simp add: rnd_zero)
  then show ?thesis using that(2) by simp
next
  case False
  define u where "u = pow2 (max (ilog2 \<bar>x\<bar>) (- 1022) - 52)"
  define y where "y = of_int (round_half_even (x / u)) * u"
  have u: "0 < u"
    unfolding u_def by (rule pow2_pos)
  then have "0 \<le> x / u"
    using assms by simp
  then have "0 \<le> round_half_even (x / u)"
    by (rule round_half_even_nonneg)
  then have y: "0 \<le> y"
    unfolding y_def using u by simp
  have "rnd x = (if \<bar>y\<bar> < pow2 1024 then Finite y else PInf)"
    using False assms by (simp add: rnd_def Let_def u_def y_def)
  then show ?thesis
    using that y by (cases "\<bar>y\<bar> < pow2 1024") simp_all
qed

lemma ilog2_eq:
  assumes "2 ^ n \<le> x" and "x < 2 ^ Suc n"
  shows "ilog2 x = int n"
proof -
  have one: "1 \<le> x"
  proof -
    have "(1::real) \<le> 2 ^ n" by simp
    then show ?thesis using assms(1) by linarith
  qed
  have pos: "0 < \<lfloor>x\<rfloor>"
    using one by simp
  have lo: "(2::int) ^ n \<le> \<lfloor>x\<rfloor>"
  proof -
    have "of_int ((2::int) ^ n) \<le> x"
      using assms(1) by simp
    then show ?thesis
      by (simp only: le_floor_iff)
  qed
  have hi: "\<lfloor>x\<rfloor> < (2::int) ^ Suc n"
  proof -
    have "x < of_int ((2::int) ^ Suc n)"
      using assms(2) by simp
    then show ?thesis
      by (simp only: floor_less_iff)
  qed
  have "2 ^ n \<le> nat \<lfloor>x\<rfloor>"
    using lo pos by (simp add: le_nat_iff)
  then have ge: "Suc n \<le> floorlog 2 (nat \<lfloor>x\<rfloor>)"
    by (rule floorlog_ge_SucI) simp
  have "nat \<lfloor>x\<rfloor> < 2 ^ Suc n"
    using hi pos by (simp add: nat_less_iff)
  then have "floorlog 2 (nat \<lfloor>x\<rfloor>) \<le> Suc n"
    by (simp add: floorlog_le_iff)
  with ge have "floorlog 2 (nat \<lfloor>x\<rfloor>) = Suc n"
    by simp
  then show ?thesis
    using one by (simp add: ilog2_def bitlen_def)
qed

lemma rnd_eval:
  assumes "2 ^ n \<le> \<bar>x\<bar>" and "\<bar>x\<bar> < 2 ^ Suc n"
  shows "rnd x =
           (let u = pow2 (int n - 52);
                y = of_int (round_half_even (x / u)) * u
            in if \<bar>y\<bar> < pow2 1024 then Finite y else if 0 < x then PInf else NInf)"
proof -
  have "ilog2 \<bar>x\<bar> = int n"
    using assms by (rule ilog2_eq)
  moreover have "x \<noteq> 0"
  proof
    assume "x = 0"
    then have "(2::real) ^ n \<le> 0" using assms(1) by simp
    moreover have "0 < (2::real) ^ n" by simp
    ultimately show False by linarith
  qed
  ultimately show ?thesis
    by (simp add: rnd_def Let_def)
qed

lemma rnd_int:
  assumes "\<bar>k\<bar> < 2 ^ 53"
  shows "rnd (of_int k) = Finite (of_int k)"
proof (cases "k = 0")
  case True
  then show ?thesis by (simp add: rnd_zero)
next
  case False
  define a where "a = nat \<bar>k\<bar>"
  have a: "0 < a" "real a = \<bar>real_of_int k\<bar>" "a < 2 ^ 53"
    using False assms by (simp_all add: a_def nat_less_iff)
  define n where "n = floorlog 2 a - 1"
  have "floorlog 2 a \<noteq> 0"
    using a(1) by (simp add: floorlog_eq_zero_iff)
  then have fl: "0 < floorlog 2 a"
    by simp
  from floorlog_bounds [of a 2] a(1)
  have "2 ^ n \<le> a" and "a < 2 ^ Suc n"
    using fl by (simp_all add: n_def)
  then have "real (2 ^ n) \<le> real a" and "real a < real (2 ^ Suc n)"
    by (simp_all only: of_nat_le_iff of_nat_less_iff)
  then have b: "2 ^ n \<le> \<bar>real_of_int k\<bar>" "\<bar>real_of_int k\<bar> < 2 ^ Suc n"
    unfolding a(2) [symmetric] by simp_all
  have "floorlog 2 a \<le> 53"
    using a(3) by (simp add: floorlog_le_iff)
  then have n: "n \<le> 52"
    by (simp add: n_def)
  define m where "m = 52 - n"
  have u: "pow2 (int n - 52) = 1 / 2 ^ m"
    using n by (simp add: pow2_def m_def nat_diff_distrib')
  have q: "real_of_int k / (1 / 2 ^ m) = of_int (k * 2 ^ m)"
    by simp
  have y: "of_int (round_half_even (real_of_int k / (1 / 2 ^ m))) * (1 / 2 ^ m) = real_of_int k"
    unfolding q round_half_even_of_int by simp
  have "\<bar>real_of_int k\<bar> < 2 ^ 53"
    using assms by (metis of_int_abs of_int_less_numeral_power_cancel_iff)
  also have "(2::real) ^ 53 < pow2 1024"
    by (simp add: pow2_def)
  finally have small: "\<bar>real_of_int k\<bar> < pow2 1024" .
  show ?thesis
    unfolding rnd_eval [OF b] Let_def u y using small by simp
qed

lemma rnd_numeral [simp]:
  "numeral k < (2::int) ^ 53 \<Longrightarrow> rnd (numeral k) = Finite (numeral k)"
  "numeral k < (2::int) ^ 53 \<Longrightarrow> rnd (- numeral k) = Finite (- numeral k)"
  using rnd_int [of "numeral k"] rnd_int [of "- numeral k"] by simp_all

lemma rnd_one [simp]: "rnd 1 = Finite 1" "rnd (- 1) = Finite (- 1)"
  using rnd_int [of 1] rnd_int [of "- 1"] by simp_all

section \<open>Properties of the stability evaluator\<close>

subsection \<open>The x-values are a translation of \<open>1, \<dots>, window_size\<close>\<close>

lemma length5E:
  assumes "length (ws::'a list) = 5"
  obtains a b c d e where "ws = [a, b, c, d, e]"
  using assms by (auto simp: length_Suc_conv eval_nat_numeral)

lemma upt_shift: "[m + a ..< m + b] = map (\<lambda>i. i + m) [a ..< b]"
  by (induction b) (auto simp: upt_Suc_append)

lemma xvalues_shift:
  assumes "w \<le> len"
  shows "xvalues len w = map (\<lambda>x. x + real (len - w)) (map real [1 ..< w + 1])"
proof -
  have "[len - w + 1 ..< len + 1] = [(len - w) + 1 ..< (len - w) + (w + 1)]"
    using assms by simp
  also have "\<dots> = map (\<lambda>i. i + (len - w)) [1 ..< w + 1]"
    by (rule upt_shift)
  finally show ?thesis
    by (simp add: xvalues_def o_def)
qed

lemma sum_list_shift:
  "sum_list (map (\<lambda>x. x + c) xs) = sum_list xs + real (length xs) * (c::real)"
  by (induction xs) (auto simp: algebra_simps)

lemma arith_mean_shift:
  "xs \<noteq> [] \<Longrightarrow> arith_mean (map (\<lambda>x. x + c) xs) = arith_mean xs + c"
  by (simp add: arith_mean_def sum_list_shift field_simps)

lemma linregress_slope_shift:
  "linregress_slope (map (\<lambda>x. x + c) xs) ys = linregress_slope xs ys"
proof (cases "xs = []")
  case True
  then show ?thesis by (simp add: linregress_slope_def)
next
  case False
  then have hd: "hd (map (\<lambda>x. x + c) xs) = hd xs + c"
    by (simp add: hd_map)
  have m: "arith_mean (map (\<lambda>x. x + c) xs) = arith_mean xs + c"
    using False by (rule arith_mean_shift)
  have z: "zip (map (\<lambda>x. x + c) xs) ys = map (\<lambda>(x, y). (x + c, y)) (zip xs ys)"
    by (simp add: zip_map1)
  show ?thesis
    unfolding linregress_slope_def Let_def m hd z
    by (simp add: o_def case_prod_unfold)
qed

lemma slope_of_window:
  assumes "w \<le> len"
  shows "linregress_slope (xvalues len w) ys = linregress_slope (map real [1 ..< w + 1]) ys"
  by (simp only: xvalues_shift [OF assms] linregress_slope_shift)

subsection \<open>Operations that return a number\<close>

lemma fadd_Finite_not_NaN:
  assumes "s \<noteq> NaN"
  shows "fadd s (Finite y) \<noteq> NaN"
  using assms by (cases s) (simp_all add: rnd_not_NaN)

lemma fold_fadd_not_NaN:
  assumes "s \<noteq> NaN"
  shows "fold (\<lambda>y s. fadd s (Finite y)) ys s \<noteq> NaN"
  using assms
proof (induction ys arbitrary: s)
  case Nil
  then show ?case by simp
next
  case (Cons y ys)
  have "fadd s (Finite y) \<noteq> NaN"
    using Cons.prems by (rule fadd_Finite_not_NaN)
  then show ?case
    by (simp add: Cons.IH)
qed

lemma np_mean_not_NaN:
  assumes "ys \<noteq> []"
  shows "np_mean ys \<noteq> NaN"
proof -
  have "fold (\<lambda>y s. fadd s (Finite y)) ys (Finite 0) \<noteq> NaN"
    by (rule fold_fadd_not_NaN) simp
  then show ?thesis
    using assms
    by (cases "fold (\<lambda>y s. fadd s (Finite y)) ys (Finite 0)") (simp_all add: np_mean_def rnd_not_NaN)
qed

lemma fmul_not_NaN:
  assumes "a \<noteq> NaN" and "c \<noteq> 0"
  shows "fmul (Finite c) a \<noteq> NaN" and "fmul a (Finite c) \<noteq> NaN"
  using assms by (cases a; simp add: rnd_not_NaN sgn_if)+

lemma fabs_not_NaN: "a \<noteq> NaN \<Longrightarrow> fabs a \<noteq> NaN"
  by (cases a) simp_all

lemma not_fge_flt:
  assumes "a \<noteq> NaN" and "b \<noteq> NaN"
  shows "(\<not> fge a b) = flt a b"
  using assms by (cases a; cases b) auto

subsection \<open>Windows of five values\<close>

lemma upt_1_6: "[Suc 0 ..< 6] = [1, 2, 3, 4, 5]"
  by (simp add: upt_conv_Cons)

lemma slope5:
  "linregress_slope (map real [1 ..< 5 + 1]) [a, b, c, d, e]
     = Inr (rnd (ols_slope [a, b, c, d, e]))"
proof -
  have "arith_mean (map (\<lambda>(x, y). (x - arith_mean [1, 2, 3, 4, 5]) * (y - arith_mean [a, b, c, d, e]))
           (zip [1, 2, 3, 4, 5] [a, b, c, d, e]))
         / arith_mean (map (\<lambda>x. (x - arith_mean [1, 2, 3, 4, 5]) * (x - arith_mean [1, 2, 3, 4, 5]))
             [1, 2, 3, 4, 5])
        = ols_slope [a, b, c, d, e]"
    by (simp add: ols_slope_def arith_mean_def Let_def upt_1_6)
  then show ?thesis
    by (simp add: linregress_slope_def Let_def upt_1_6)
qed

lemma fold_max5: "fold max [b, c, d, e] (a::real) = Max (set [a, b, c, d, e])"
  by (simp add: max.commute max.left_commute max.assoc)

lemma fold_min5: "fold min [b, c, d, e] (a::real) = Min (set [a, b, c, d, e])"
  by (simp add: min.commute min.left_commute min.assoc)

lemma last_window5:
  assumes "5 \<le> length vs"
  obtains a b c d e where "last_window vs 5 = [a, b, c, d, e]"
proof -
  have "length (last_window vs 5) = 5"
    using assms by (simp add: last_window_def)
  then show ?thesis using that by (rule length5E)
qed

lemma exit_of_parts:
  assumes "\<not> length vs < w"
    and "builtin_max (last_window vs w) = Inr M"
    and "builtin_min (last_window vs w) = Inr m"
    and "linregress_slope (xvalues (length vs) w) (last_window vs w) = Inr s"
  shows "steady_state_exit vs w =
           Inr (if fge (rnd (M - m)) (fmul (Finite float_0_2) (np_mean (last_window vs w)))
                then Failed_a
                else if fge (fmul (fabs s) (rnd (real w - 1)))
                          (fmul (Finite float_0_1) (np_mean (last_window vs w)))
                then Failed_b
                else All_Passed)"
  using assms
  by (simp add: steady_state_exit_def Let_def fsub_def)

lemma window5_parts:
  assumes "5 \<le> length vs"
  shows "builtin_max (last_window vs 5) = Inr (Max (set (last_window vs 5)))"
    and "builtin_min (last_window vs 5) = Inr (Min (set (last_window vs 5)))"
    and "linregress_slope (xvalues (length vs) 5) (last_window vs 5)
           = Inr (rnd (ols_slope (last_window vs 5)))"
proof -
  from assms obtain a b c d e where w: "last_window vs 5 = [a, b, c, d, e]"
    by (rule last_window5)
  show "builtin_max (last_window vs 5) = Inr (Max (set (last_window vs 5)))"
    unfolding w builtin_max.simps fold_max5 ..
  show "builtin_min (last_window vs 5) = Inr (Min (set (last_window vs 5)))"
    unfolding w builtin_min.simps fold_min5 ..
  show "linregress_slope (xvalues (length vs) 5) (last_window vs 5)
          = Inr (rnd (ols_slope (last_window vs 5)))"
    unfolding slope_of_window [OF assms] w by (rule slope5)
qed

lemma steady_state_exit5:
  assumes "5 \<le> length vs"
  shows "steady_state_exit vs 5 =
           Inr (if fge (rnd (Max (set (last_window vs 5)) - Min (set (last_window vs 5))))
                     (fmul (Finite float_0_2) (np_mean (last_window vs 5)))
                then Failed_a
                else if fge (fmul (fabs (rnd (ols_slope (last_window vs 5)))) (Finite 4))
                          (fmul (Finite float_0_1) (np_mean (last_window vs 5)))
                then Failed_b
                else All_Passed)"
proof -
  have n: "\<not> length vs < 5" using assms by simp
  show ?thesis
    unfolding exit_of_parts [OF n window5_parts [OF assms]]
    by simp
qed

lemma in_steady_state5:
  "in_steady_state vs 5 =
     Inr (5 \<le> length vs
          \<and> flt (rnd (Max (set (drop (length vs - 5) vs)) - Min (set (drop (length vs - 5) vs))))
                (fmul (Finite float_0_2) (np_mean (drop (length vs - 5) vs)))
          \<and> flt (fmul (fabs (rnd (ols_slope (drop (length vs - 5) vs)))) (Finite 4))
                (fmul (Finite float_0_1) (np_mean (drop (length vs - 5) vs))))"
proof (cases "5 \<le> length vs")
  case False
  then show ?thesis
    by (simp add: in_steady_state_def steady_state_exit_def)
next
  case True
  have dr: "drop (length vs - 5) vs = last_window vs 5"
    by (simp add: last_window_def)
  have ne: "last_window vs 5 \<noteq> []"
    using True by (auto simp: last_window_def)
  have m: "np_mean (last_window vs 5) \<noteq> NaN"
    using ne by (rule np_mean_not_NaN)
  have a: "(\<not> fge (rnd (Max (set (last_window vs 5)) - Min (set (last_window vs 5))))
                (fmul (Finite float_0_2) (np_mean (last_window vs 5))))
           = flt (rnd (Max (set (last_window vs 5)) - Min (set (last_window vs 5))))
                (fmul (Finite float_0_2) (np_mean (last_window vs 5)))"
    by (intro not_fge_flt rnd_not_NaN fmul_not_NaN m) (simp add: float_0_2_def)
  have b: "(\<not> fge (fmul (fabs (rnd (ols_slope (last_window vs 5)))) (Finite 4))
                (fmul (Finite float_0_1) (np_mean (last_window vs 5))))
           = flt (fmul (fabs (rnd (ols_slope (last_window vs 5)))) (Finite 4))
                (fmul (Finite float_0_1) (np_mean (last_window vs 5)))"
    by (intro not_fge_flt fmul_not_NaN fabs_not_NaN rnd_not_NaN m) (simp_all add: float_0_1_def)
  show ?thesis
    unfolding dr in_steady_state_def steady_state_exit5 [OF True] a [symmetric] b [symmetric]
    using True by simp
qed

lemma in_steady_state5_total: "\<exists>b. in_steady_state vs 5 = Inr b"
  unfolding in_steady_state5 by simp

subsection \<open>Thresholds of some windows\<close>

lemma thr_0_2_100 [simp]: "rnd (float_0_2 * 100) = Finite 20"
  using rnd_eval [of 4 "float_0_2 * 100"]
  by (simp add: float_0_2_def pow2_def round_half_even_def)

lemma thr_0_1_100 [simp]: "rnd (float_0_1 * 100) = Finite 10"
  using rnd_eval [of 3 "float_0_1 * 100"]
  by (simp add: float_0_1_def pow2_def round_half_even_def)

lemma thr_0_2_102 [simp]: "rnd (float_0_2 * 102) = Finite (5742089524897383 / 2 ^ 48)"
  using rnd_eval [of 4 "float_0_2 * 102"]
  by (simp add: float_0_2_def pow2_def round_half_even_def)

lemma thr_0_1_102 [simp]: "rnd (float_0_1 * 102) = Finite (5742089524897383 / 2 ^ 49)"
  using rnd_eval [of 3 "float_0_1 * 102"]
  by (simp add: float_0_1_def pow2_def round_half_even_def)

lemma thr_0_2_120 [simp]: "rnd (float_0_2 * 120) = Finite 24"
  using rnd_eval [of 4 "float_0_2 * 120"]
  by (simp add: float_0_2_def pow2_def round_half_even_def)

lemma thr_0_1_120 [simp]: "rnd (float_0_1 * 120) = Finite 12"
  using rnd_eval [of 3 "float_0_1 * 120"]
  by (simp add: float_0_1_def pow2_def round_half_even_def)

lemma thr_0_2_200 [simp]: "rnd (float_0_2 * 200) = Finite 40"
  using rnd_eval [of 5 "float_0_2 * 200"]
  by (simp add: float_0_2_def pow2_def round_half_even_def)

lemma thr_0_1_200 [simp]: "rnd (float_0_1 * 200) = Finite 20"
  using rnd_eval [of 4 "float_0_1 * 200"]
  by (simp add: float_0_1_def pow2_def round_half_even_def)

lemma thr_0_2_500 [simp]: "rnd (float_0_2 * 500) = Finite 100"
  using rnd_eval [of 6 "float_0_2 * 500"]
  by (simp add: float_0_2_def pow2_def round_half_even_def)

lemma thr_0_1_500 [simp]: "rnd (float_0_1 * 500) = Finite 50"
  using rnd_eval [of 5 "float_0_1 * 500"]
  by (simp add: float_0_1_def pow2_def round_half_even_def)

lemma thr_0_2_825 [simp]: "rnd (float_0_2 * 825) = Finite 165"
  using rnd_eval [of 7 "float_0_2 * 825"]
  by (simp add: float_0_2_def pow2_def round_half_even_def)

lemma thr_0_1_825 [simp]: "rnd (float_0_1 * 825) = Finite (165 / 2 ^ 1)"
  using rnd_eval [of 6 "float_0_1 * 825"]
  by (simp add: float_0_1_def pow2_def round_half_even_def)

lemma thr_0_2_1000 [simp]: "rnd (float_0_2 * 1000) = Finite 200"
  using rnd_eval [of 7 "float_0_2 * 1000"]
  by (simp add: float_0_2_def pow2_def round_half_even_def)

lemma thr_0_1_1000 [simp]: "rnd (float_0_1 * 1000) = Finite 100"
  using rnd_eval [of 6 "float_0_1 * 1000"]
  by (simp add: float_0_1_def pow2_def round_half_even_def)

declare rnd_zero [simp]

text \<open>
  C1 (amended). With the window size 5, \<open>in_steady_state\<close> never raises, and it returns
  \<open>True\<close> exactly when the series has at least five values and, in double-precision
  arithmetic, the range of the last five (maximum minus minimum, rounded) is strictly
  less than the product of the float 0.2 and their mean, and the absolute least-squares
  slope of the last five times 4 is strictly less than the product of the float 0.1 and
  that mean; the mean and both products are the rounded results that the program
  computes. Hence a shorter series is unstable, and a range or fitted range equal to the
  computed threshold fails.
\<close>

theorem in_steady_state_rounded:
  "in_steady_state vs 5 =
     Inr (5 \<le> length vs
          \<and> flt (rnd (Max (set (drop (length vs - 5) vs)) - Min (set (drop (length vs - 5) vs))))
                (fmul (Finite float_0_2) (np_mean (drop (length vs - 5) vs)))
          \<and> flt (fmul (fabs (rnd (ols_slope (drop (length vs - 5) vs)))) (Finite 4))
                (fmul (Finite float_0_1) (np_mean (drop (length vs - 5) vs))))"
  by (rule in_steady_state5)

theorem in_steady_state_rounded_witness:
  "in_steady_state [100, 101, 102, 103, 104] 5 = Inr True
   \<and> in_steady_state [100, 100, 100, 100] 5 = Inr False
   \<and> in_steady_state [90, 95, 100, 105, 110] 5 = Inr False
   \<and> in_steady_state [190, 195, 200, 205, 210] 5 = Inr False"
proof -
  have "in_steady_state [100, 101, 102, 103, 104] 5 = Inr True"
    using in_steady_state_rounded [of "[100, 101, 102, 103, 104]"]
    by (simp add: np_mean_def ols_slope_def upt_1_6)
  moreover have "in_steady_state [100, 100, 100, 100] 5 = Inr False"
    using in_steady_state_rounded [of "[100, 100, 100, 100]"]
    by simp
  moreover have "in_steady_state [90, 95, 100, 105, 110] 5 = Inr False"
    using in_steady_state_rounded [of "[90, 95, 100, 105, 110]"]
    by (simp add: np_mean_def)
  moreover have "in_steady_state [190, 195, 200, 205, 210] 5 = Inr False"
    using in_steady_state_rounded [of "[190, 195, 200, 205, 210]"]
    by (simp add: np_mean_def ols_slope_def upt_1_6)
  ultimately show ?thesis by simp
qed

text \<open>
  C1 as stated fails: the window below has a range of exactly 0.2 times its arithmetic
  mean, and the program finds it stable, because the product \<open>0.2 * yavg\<close> is rounded
  up to the next double above the range.
\<close>

theorem exact_threshold_counterexample:
  "rnd boundary_high = Finite boundary_high
   \<and> rnd boundary_low = Finite boundary_low
   \<and> Max (set [boundary_high, boundary_high, boundary_low, boundary_high, boundary_high])
       - Min (set [boundary_high, boundary_high, boundary_low, boundary_high, boundary_high])
     = 0.2 * (sum_list [boundary_high, boundary_high, boundary_low, boundary_high, boundary_high] / 5)
   \<and> in_steady_state [boundary_high, boundary_high, boundary_low, boundary_high, boundary_high] 5
     = Inr True"
proof -
  have h: "rnd boundary_high = Finite boundary_high"
    using rnd_eval [of 10 boundary_high]
    by (simp add: boundary_high_def pow2_def round_half_even_def)
  have l: "rnd boundary_low = Finite boundary_low"
    using rnd_eval [of 9 boundary_low]
    by (simp add: boundary_low_def pow2_def round_half_even_def)
  have s2: "rnd (boundary_high + boundary_high) = Finite (4685573199813935 / 2 ^ 41)"
    using rnd_eval [of 11 "boundary_high + boundary_high"]
    by (simp add: boundary_high_def pow2_def round_half_even_def)
  have s3: "rnd ((4685573199813935 / 2 ^ 41) + boundary_low) = Finite (6577823915123409 / 2 ^ 41)"
    using rnd_eval [of 11 "(4685573199813935 / 2 ^ 41) + boundary_low"]
    by (simp add: boundary_low_def pow2_def round_half_even_def)
  have s4: "rnd ((6577823915123409 / 2 ^ 41) + boundary_high) = Finite (1115076314378797 / 2 ^ 38)"
    using rnd_eval [of 11 "(6577823915123409 / 2 ^ 41) + boundary_high"]
    by (simp add: boundary_high_def pow2_def round_half_even_def)
  have s5: "rnd ((1115076314378797 / 2 ^ 38) + boundary_high) = Finite 5122"
    using rnd_eval [of 12 "(1115076314378797 / 2 ^ 38) + boundary_high"]
    by (simp add: boundary_high_def pow2_def round_half_even_def)
  have av: "rnd (5122 / 5) = Finite (2252679422987469 / 2 ^ 41)"
    using rnd_eval [of 10 "5122 / 5"]
    by (simp add: pow2_def round_half_even_def)
  have m: "np_mean [boundary_high, boundary_high, boundary_low, boundary_high, boundary_high]
             = Finite (2252679422987469 / 2 ^ 41)"
  proof -
    have "fold (\<lambda>y s. fadd s (Finite y))
            [boundary_high, boundary_high, boundary_low, boundary_high, boundary_high] (Finite 0)
          = Finite 5122"
      by (simp only: fold_simps fadd.simps add_0 h s2 s3 s4 s5)
    then show ?thesis
      by (simp add: np_mean_def av)
  qed
  have ta: "rnd (float_0_2 * (2252679422987469 / 2 ^ 41)) = Finite (7208574153559901 / 2 ^ 45)"
    using rnd_eval [of 7 "float_0_2 * (2252679422987469 / 2 ^ 41)"]
    by (simp add: float_0_2_def pow2_def round_half_even_def)
  have tb: "rnd (float_0_1 * (2252679422987469 / 2 ^ 41)) = Finite (7208574153559901 / 2 ^ 46)"
    using rnd_eval [of 6 "float_0_1 * (2252679422987469 / 2 ^ 41)"]
    by (simp add: float_0_1_def pow2_def round_half_even_def)
  have mx: "Max (set [boundary_high, boundary_high, boundary_low, boundary_high, boundary_high])
              = boundary_high"
    and mn: "Min (set [boundary_high, boundary_high, boundary_low, boundary_high, boundary_high])
              = boundary_low"
    by (simp_all add: boundary_high_def boundary_low_def)
  have r: "rnd (boundary_high - boundary_low) = Finite (1802143538389975 / 2 ^ 43)"
    using rnd_eval [of 7 "boundary_high - boundary_low"]
    by (simp add: boundary_high_def boundary_low_def pow2_def round_half_even_def)
  have sl: "ols_slope [boundary_high, boundary_high, boundary_low, boundary_high, boundary_high] = 0"
    by (simp add: ols_slope_def upt_1_6)
  have ex: "boundary_high - boundary_low
              = 0.2 * (sum_list [boundary_high, boundary_high, boundary_low, boundary_high,
                                  boundary_high] / 5)"
    by (simp add: boundary_high_def boundary_low_def)
  have dr: "drop (length [boundary_high, boundary_high, boundary_low, boundary_high, boundary_high] - 5)
              [boundary_high, boundary_high, boundary_low, boundary_high, boundary_high]
            = [boundary_high, boundary_high, boundary_low, boundary_high, boundary_high]"
    by simp
  have "in_steady_state [boundary_high, boundary_high, boundary_low, boundary_high, boundary_high] 5
          = Inr True"
    unfolding in_steady_state5 dr mx mn r sl m fmul.simps ta tb rnd_zero fabs.simps abs_zero
      mult_zero_left flt.simps
    by simp
  then show ?thesis
    using h l ex unfolding mx mn by simp
qed

subsection \<open>A window with mean 0; windows at different positions\<close>

lemma fold_max_ge: "(y::real) \<le> fold max ys y"
proof (induction ys arbitrary: y)
  case Nil
  show ?case by simp
next
  case (Cons x xs)
  have "y \<le> max x y" by simp
  also have "\<dots> \<le> fold max xs (max x y)" by (rule Cons.IH)
  finally show ?case by simp
qed

lemma fold_min_le: "fold min ys (y::real) \<le> y"
proof (induction ys arbitrary: y)
  case Nil
  show ?case by simp
next
  case (Cons x xs)
  have "fold min xs (min x y) \<le> min x y" by (rule Cons.IH)
  also have "\<dots> \<le> y" by simp
  finally show ?case by simp
qed

lemma range_nonneg:
  assumes "ys \<noteq> []"
  obtains M m where "builtin_max ys = Inr M" and "builtin_min ys = Inr m" and "m \<le> M"
proof -
  from assms obtain y rest where ys: "ys = y # rest"
    by (cases ys) auto
  have "fold min rest y \<le> y" by (rule fold_min_le)
  also have "y \<le> fold max rest y" by (rule fold_max_ge)
  finally have "fold min rest y \<le> fold max rest y" .
  then show ?thesis
    using that [of "fold max rest y" "fold min rest y"] by (simp add: ys)
qed

lemma last_window_nonempty:
  assumes "0 < w" and "w \<le> length vs"
  shows "last_window vs w \<noteq> []"
  using assms by (auto simp: last_window_def)

lemma rounded_range_ge_zero:
  assumes "m \<le> M"
  shows "fge (fsub (Finite M) (Finite m)) (Finite 0)"
proof -
  have "0 \<le> M - m"
    using assms by simp
  then show ?thesis
    by (rule rnd_nonneg) (simp_all add: fsub_def)
qed

text \<open>
  C2 (amended). When the arithmetic mean of the measurement window is 0, every window
  fails the range criterion and is unstable: the range is never negative, so
  \<open>yrange >= 0.2 * 0\<close> holds for a zero range as it does for a nonzero one.
\<close>

theorem zero_mean_fails_range:
  assumes "0 < w" and "w \<le> length vs" and "np_mean (last_window vs w) = Finite 0"
  shows "steady_state_exit vs w = Inr Failed_a \<and> in_steady_state vs w = Inr False"
proof -
  have "last_window vs w \<noteq> []"
    using assms(1,2) by (rule last_window_nonempty)
  then obtain M m where mx: "builtin_max (last_window vs w) = Inr M"
    and mn: "builtin_min (last_window vs w) = Inr m" and le: "m \<le> M"
    by (rule range_nonneg)
  have "fge (fsub (Finite M) (Finite m)) (Finite 0)"
    using le by (rule rounded_range_ge_zero)
  then have ex: "steady_state_exit vs w = Inr Failed_a"
    using assms(2,3) by (simp add: steady_state_exit_def Let_def mx mn)
  then show ?thesis
    by (simp add: in_steady_state_def)
qed

theorem zero_mean_fails_range_witness:
  "np_mean (last_window [0, 0, 0, 0, 0] 5) = Finite 0
   \<and> steady_state_exit [0, 0, 0, 0, 0] 5 = Inr Failed_a
   \<and> np_mean (last_window [7, -2, 1, 0, 3, -2] 5) = Finite 0
   \<and> in_steady_state [7, -2, 1, 0, 3, -2] 5 = Inr False"
proof -
  have a: "np_mean (last_window [0, 0, 0, 0, 0] 5) = Finite 0"
    by (simp add: np_mean_def last_window_def)
  have b: "np_mean (last_window [7, -2, 1, 0, 3, -2] 5) = Finite 0"
    by (simp add: np_mean_def last_window_def)
  show ?thesis
    using zero_mean_fails_range [of 5 "[0, 0, 0, 0, 0]", OF _ _ a]
          zero_mean_fails_range [of 5 "[7, -2, 1, 0, 3, -2]", OF _ _ b] a b
    by simp
qed

text \<open>
  C2 as stated fails: the window of five zeros has mean 0 and range 0, and the program
  leaves at the exit of the failed range criterion.
\<close>

theorem zero_window_counterexample:
  "np_mean (last_window [0, 0, 0, 0, 0] 5) = Finite 0
   \<and> builtin_max (last_window [0, 0, 0, 0, 0] 5) = Inr 0
   \<and> builtin_min (last_window [0, 0, 0, 0, 0] 5) = Inr 0
   \<and> steady_state_exit [0, 0, 0, 0, 0] 5 = Inr Failed_a"
  by (simp add: steady_state_exit_def np_mean_def last_window_def fsub_def)

text \<open>
  C10. The verdict depends on the trailing window only: two series of length at least
  the (positive) window size with the same last \<open>window_size\<close> values get the same
  result, although the x-values of the fit are the absolute round numbers.
\<close>

theorem verdict_depends_on_window:
  assumes "0 < w" and "w \<le> length a" and "w \<le> length b"
    and "drop (length a - w) a = drop (length b - w) b"
  shows "in_steady_state a w = in_steady_state b w"
proof -
  have win: "last_window a w = last_window b w"
    using assms(1,4) by (simp add: last_window_def)
  have sl: "linregress_slope (xvalues (length a) w) (last_window b w)
              = linregress_slope (xvalues (length b) w) (last_window b w)"
    by (simp only: slope_of_window [OF assms(2)] slope_of_window [OF assms(3)])
  have "steady_state_exit a w = steady_state_exit b w"
    using assms(2,3) unfolding steady_state_exit_def Let_def win sl by simp
  then show ?thesis
    by (simp add: in_steady_state_def)
qed

theorem verdict_depends_on_window_witness:
  "in_steady_state [1, 2, 100, 101, 102, 103, 104] 5 = in_steady_state [100, 101, 102, 103, 104] 5
   \<and> xvalues (length [1, 2, 100, 101, 102, 103, 104 :: real]) 5 = [3, 4, 5, 6, 7]
   \<and> xvalues (length [100, 101, 102, 103, 104 :: real]) 5 = [1, 2, 3, 4, 5]"
proof -
  have "in_steady_state [1, 2, 100, 101, 102, 103, 104] 5
          = in_steady_state [100, 101, 102, 103, 104] 5"
    using verdict_depends_on_window [of 5 "[1, 2, 100, 101, 102, 103, 104]" "[100, 101, 102, 103, 104]"]
    by simp
  moreover have "xvalues (length [1, 2, 100, 101, 102, 103, 104 :: real]) 5 = [3, 4, 5, 6, 7]"
    by (simp add: xvalues_def upt_conv_Cons)
  moreover have "xvalues (length [100, 101, 102, 103, 104 :: real]) 5 = [1, 2, 3, 4, 5]"
    by (simp add: xvalues_def upt_conv_Cons)
  ultimately show ?thesis by simp
qed

section \<open>Sequencing\<close>

lemma bind_cases:
  assumes "bind m f tr = (r, evs)"
  obtains (stopped) e where "m tr = (Inl e, evs)" and "r = Inl e"
  | (continued) a e1 e2 where "m tr = (Inr a, e1)" and "f a (tr @ e1) = (r, e2)"
      and "evs = e1 @ e2"
  using assms
  by (auto simp: bind_def split: prod.splits sum.splits)

lemma bind_Inr:
  assumes "m tr = (Inr a, e1)"
  shows "bind m f tr = (fst (f a (tr @ e1)), e1 @ snd (f a (tr @ e1)))"
  using assms by (simp add: bind_def split: prod.splits)

lemma bind_Inl:
  assumes "m tr = (Inl e, e1)"
  shows "bind m f tr = (Inl e, e1)"
  using assms by (simp add: bind_def)

lemma then_io_cases:
  assumes "then_io m k tr = (r, evs)"
  obtains (stopped) e where "m tr = (Inl e, evs)" and "r = Inl e"
  | (continued) a e1 e2 where "m tr = (Inr a, e1)" and "k (tr @ e1) = (r, e2)"
      and "evs = e1 @ e2"
  using assms unfolding then_io_def by (rule bind_cases)

section \<open>Fail-fast\<close>

lemma fail_fast_Inr_clean:
  assumes "fail_fast (Inr a, evs)"
  shows "list_all (\<lambda>e. \<not> failed e) evs"
proof (cases evs rule: rev_cases)
  case Nil
  then show ?thesis by simp
next
  case (snoc xs x)
  then show ?thesis using assms by simp
qed

lemma fail_fast_append:
  assumes "list_all (\<lambda>e. \<not> failed e) e1" and "fail_fast (r, e2)"
  shows "fail_fast (r, e1 @ e2)"
proof (cases e2 rule: rev_cases)
  case Nil
  then show ?thesis
    using assms(1) by (cases e1 rule: rev_cases) auto
next
  case (snoc xs x)
  then show ?thesis
    using assms by (simp add: butlast_append)
qed

lemma ff_bind [intro!]:
  assumes "ff m" and "\<And>a. ff (f a)"
  shows "ff (bind m f)"
  unfolding ff_def
proof
  fix tr
  obtain r evs where run: "bind m f tr = (r, evs)"
    by (cases "bind m f tr")
  from run show "fail_fast (bind m f tr)"
  proof (cases rule: bind_cases)
    case (stopped e)
    have "fail_fast (m tr)"
      using assms(1) unfolding ff_def ..
    then show ?thesis
      unfolding run stopped by simp
  next
    case (continued a e1 e2)
    have "fail_fast (m tr)"
      using assms(1) unfolding ff_def ..
    then have "fail_fast (Inr a, e1)"
      unfolding continued(1) .
    then have c1: "list_all (\<lambda>e. \<not> failed e) e1"
      by (rule fail_fast_Inr_clean)
    have "fail_fast (f a (tr @ e1))"
      using assms(2) [of a] unfolding ff_def ..
    then have "fail_fast (r, e2)"
      unfolding continued(2) .
    with c1 have "fail_fast (r, e1 @ e2)"
      by (rule fail_fast_append)
    then show ?thesis
      using run continued(3) by simp
  qed
qed

lemma ff_then_io [intro!]: "ff m \<Longrightarrow> ff k \<Longrightarrow> ff (then_io m k)"
  unfolding then_io_def by (rule ff_bind)

lemma ff_ret [intro!]: "ff (ret a)"
  by (simp add: ff_def ret_def)

lemma ff_abort [intro!]: "ff (abort e)"
  by (simp add: ff_def abort_def)

lemma ff_lift [intro!]: "ff (lift r)"
  by (simp add: ff_def lift_def)

lemma ff_info [intro!]: "ff (info l)"
  by (simp add: ff_def info_def)

lemma ff_ask [intro!]: "ff (ask c oracle e)"
  by (simp add: ff_def ask_def split: option.splits)

lemma ff_for_each [intro!]:
  assumes "\<And>x. ff (f x)"
  shows "ff (for_each f xs)"
  by (induction xs) (auto intro: assms)

lemma ff_for_loop [intro!]:
  assumes "\<And>x s. ff (body x s)"
  shows "ff (for_loop body xs s)"
  by (induction xs arbitrary: s) (auto intro: assms)

lemma ff_if [intro!]: "(b \<Longrightarrow> ff m) \<Longrightarrow> (\<not> b \<Longrightarrow> ff k) \<Longrightarrow> ff (if b then m else k)"
  by simp

lemma ff_save_file [intro!]: "ff (save_file E d f x)"
  unfolding save_file_def Let_def by auto

lemma ff_read_file [intro!]: "ff (read_file E d f)"
  unfolding read_file_def Let_def by auto

lemma ff_create_dir [intro!]: "ff (create_dir E d)"
  unfolding create_dir_def by auto

lemma ff_run [intro!]: "ff (run E cmd)"
  unfolding run_def by auto

lemma ff_decode [intro!]: "ff (decode E b)"
  unfolding decode_def by auto

lemma ff_save_stdout_stderr [intro!]: "ff (save_stdout_stderr E d r)"
  unfolding save_stdout_stderr_def by auto

lemma ff_save_dict [intro!]: "ff (save_dict E d j)"
  unfolding save_dict_def by auto

lemma ff_read_dir_files [intro!]: "ff (read_dir_files E d ns)"
  unfolding read_dir_files_def by auto

lemma ff_read_dir [intro!]: "ff (read_dir E d)"
  unfolding read_dir_def by auto

lemma ff_get_queue_info [intro!]: "ff (get_queue_info E d)"
  unfolding get_queue_info_def by auto

lemma ff_get_nvme_module_info [intro!]: "ff (get_nvme_module_info E)"
  unfolding get_nvme_module_info_def by auto

lemma ff_runs [intro!]:
  "ff (run_lshw E)" "ff (run_lspci E)" "ff (run_nvme_list E)" "ff (run_nvme_id_ctrl E d)"
  "ff (run_nvme_smart_log E d)" "ff (run_nvme_get_feature E d fid)"
  "ff (run_nvme_set_feature E d fid v)" "ff (run_nvme_format E d)"
  unfolding run_lshw_def run_lspci_def run_nvme_list_def run_nvme_id_ctrl_def
    run_nvme_smart_log_def run_nvme_get_feature_def run_nvme_set_feature_def
    run_nvme_format_def
  by auto

lemma ff_match_or_exit [intro!]: "ff (match_or_exit E p l)"
  unfolding match_or_exit_def by auto

lemma ff_get_nvme_feature [intro!]: "ff (get_nvme_feature E d fid)"
  unfolding get_nvme_feature_def by (auto split: list.splits)

lemma ff_get_nvme_features [intro!]: "ff (get_nvme_features E d)"
  unfolding get_nvme_features_def by auto

lemma ff_get_nvme_namespace [intro!]: "ff (get_nvme_namespace E data d)"
  unfolding get_nvme_namespace_def Let_def by (auto split: option.splits)

lemma ff_run_and_save_fio [intro!]: "ff (run_and_save_fio E d job)"
  unfolding run_and_save_fio_def by auto

lemma ff_render [intro!]: "ff (render E tpl kw)"
  unfolding render_def by auto

lemma ff_save_run [intro!]: "ff m \<Longrightarrow> ff (save_run E a sub m)"
  unfolding save_run_def by auto

lemma ff_iops_conditions [intro!]: "ff (iops_conditions E a)"
  unfolding iops_conditions_def by auto

lemma ff_iops_purge [intro!]: "ff (iops_purge E a)"
  unfolding iops_purge_def by auto

lemma ff_iops_mode [intro!]: "ff (iops_mode E a ps)"
  unfolding iops_mode_def by auto

lemma ff_iops_wipc [intro!]: "ff (iops_wipc E a ps ar qd tc)"
  unfolding iops_wipc_def by auto

lemma ff_iops_cell [intro!]: "ff (iops_cell E a c n rr bs t)"
  unfolding iops_cell_def by auto

lemma ff_iops_round [intro!]: "ff (iops_round E a c n t)"
  unfolding iops_round_def by auto

lemma ff_iops_loop [intro!]: "ff (iops_loop E a c ns rn t)"
  by (induction ns arbitrary: rn t) auto

lemma ff_iops_report [intro!]: "ff (iops_report rn)"
  unfolding iops_report_def by (auto split: option.splits)

lemma ff_iops_session [intro!]: "ff (iops_session E a c)"
  unfolding iops_session_def iops_measure_def by (auto split: prod.splits)

lemma ff_iops: "ff (iops E a)"
  unfolding iops_def Let_def by (auto split: prod.splits)


section \<open>Kinds of events\<close>

lemma only_bind [intro!]:
  assumes "only P m" and "\<And>a. only P (f a)"
  shows "only P (bind m f)"
  unfolding only_def
proof
  fix tr
  obtain r evs where run: "bind m f tr = (r, evs)"
    by (cases "bind m f tr")
  from run show "list_all P (snd (bind m f tr))"
  proof (cases rule: bind_cases)
    case (stopped e)
    have "list_all P (snd (m tr))"
      using assms(1) unfolding only_def ..
    then show ?thesis
      unfolding run stopped by simp
  next
    case (continued a e1 e2)
    have "list_all P (snd (m tr))"
      using assms(1) unfolding only_def ..
    moreover have "list_all P (snd (f a (tr @ e1)))"
      using assms(2) [of a] unfolding only_def ..
    ultimately show ?thesis
      unfolding run continued by simp
  qed
qed

lemma only_then_io [intro!]: "only P m \<Longrightarrow> only P k \<Longrightarrow> only P (then_io m k)"
  unfolding then_io_def by (rule only_bind)

lemma only_ret [intro!]: "only P (ret a)"
  by (simp add: only_def ret_def)

lemma only_abort [intro!]: "only P (abort e)"
  by (simp add: only_def abort_def)

lemma only_lift [intro!]: "only P (lift r)"
  by (simp add: only_def lift_def)

lemma only_info [intro!]: "P (Logged l) \<Longrightarrow> only P (info l)"
  by (simp add: only_def info_def)

lemma only_ask [intro!]:
  "P (Called c True) \<Longrightarrow> P (Called c False) \<Longrightarrow> only P (ask c oracle e)"
  by (simp add: only_def ask_def split: option.splits)

lemma only_for_each [intro!]:
  assumes "\<And>x. only P (f x)"
  shows "only P (for_each f xs)"
  by (induction xs) (auto intro: assms)

lemma only_for_loop [intro!]:
  assumes "\<And>x s. only P (body x s)"
  shows "only P (for_loop body xs s)"
  by (induction xs arbitrary: s) (auto intro: assms)

lemma only_if [intro!]:
  "(b \<Longrightarrow> only P m) \<Longrightarrow> (\<not> b \<Longrightarrow> only P k) \<Longrightarrow> only P (if b then m else k)"
  by simp

text \<open>The events of the wrappers, of a cell and of a round.\<close>

lemma only_save_stdout_stderr:
  assumes "\<And>c ok. (\<And>cmd. c \<noteq> Subprocess cmd) \<Longrightarrow> (\<And>tpl kw. c \<noteq> Render tpl kw) \<Longrightarrow> P (Called c ok)"
  shows "only P (save_stdout_stderr E d r)"
  unfolding save_stdout_stderr_def create_dir_def decode_def save_file_def Let_def
  by (auto intro!: assms)

lemma only_run_and_save_fio:
  assumes "\<And>c ok. (\<And>cmd. c \<noteq> Subprocess cmd) \<Longrightarrow> (\<And>tpl kw. c \<noteq> Render tpl kw) \<Longrightarrow> P (Called c ok)"
    and "\<And>ok. P (Called (Subprocess (fio_cmd d)) ok)"
  shows "only P (run_and_save_fio E d job)"
  unfolding run_and_save_fio_def create_dir_def save_file_def read_file_def run_def Let_def
    fio_cmd_def [symmetric]
  by (auto intro!: assms only_save_stdout_stderr)

lemma only_iops_cell:
  assumes "\<And>c ok. (\<And>cmd. c \<noteq> Subprocess cmd) \<Longrightarrow> (\<And>tpl kw. c \<noteq> Render tpl kw) \<Longrightarrow> P (Called c ok)"
    and "\<And>ok. P (Called (Subprocess (fio_cmd (cell_dir a n rr bs ''wdpc''))) ok)"
    and "\<And>ok. P (Called (Subprocess (smart_log_cmd (dev a))) ok)"
    and "\<And>ok. P (Called (Render WDPC_IOPS_JOB_TPL (wdpc_kwargs a c rr bs)) ok)"
    and "\<And>v. P (Logged (Cell_Iops n rr bs v))"
  shows "only P (iops_cell E a c n rr bs t)"
  unfolding iops_cell_def run_nvme_smart_log_def run_def render_def smart_log_cmd_def [symmetric]
  by (auto intro!: assms only_save_stdout_stderr only_run_and_save_fio)

lemma only_iops_round:
  assumes "\<And>c ok. (\<And>cmd. c \<noteq> Subprocess cmd) \<Longrightarrow> (\<And>tpl kw. c \<noteq> Render tpl kw) \<Longrightarrow> P (Called c ok)"
    and "\<And>rr bs ok. P (Called (Subprocess (fio_cmd (cell_dir a n rr bs ''wdpc''))) ok)"
    and "\<And>ok. P (Called (Subprocess (smart_log_cmd (dev a))) ok)"
    and "\<And>rr bs ok. P (Called (Render WDPC_IOPS_JOB_TPL (wdpc_kwargs a c rr bs)) ok)"
    and "\<And>rr bs v. P (Logged (Cell_Iops n rr bs v))"
  shows "only P (iops_round E a c n t)"
  unfolding iops_round_def
  by (auto intro!: assms only_iops_cell)

lemma no_round_line_iops_round: "only (\<lambda>e. \<not> is_round_line e) (iops_round E a c n t)"
  by (rule only_iops_round) simp_all

lemma only_filter:
  assumes "only (\<lambda>e. \<not> Q e) m" and "m tr = (r, evs)"
  shows "filter Q evs = []"
proof -
  have "list_all (\<lambda>e. \<not> Q e) (snd (m tr))"
    using assms(1) unfolding only_def ..
  then show ?thesis
    unfolding assms(2) by (simp add: list_all_iff filter_empty_conv)
qed

lemma not_subprocess_no_fio:
  assumes "\<And>cmd. c \<noteq> Subprocess cmd" and "\<And>tpl kw. c \<noteq> Render tpl kw"
  shows "\<not> is_cell_step (Called c ok)"
  using assms by (cases c) auto

lemma no_fio_save_stdout_stderr:
  "save_stdout_stderr E d r tr = (res, evs) \<Longrightarrow> filter is_cell_step evs = []"
  by (rule only_filter [OF only_save_stdout_stderr]) (rule not_subprocess_no_fio)

lemma no_fio_create_dir:
  "create_dir E d tr = (res, evs) \<Longrightarrow> filter is_cell_step evs = []"
  by (rule only_filter [where m = "create_dir E d"])
     (auto simp: create_dir_def)

lemma no_fio_save_file:
  "save_file E d f x tr = (res, evs) \<Longrightarrow> filter is_cell_step evs = []"
  by (rule only_filter [where m = "save_file E d f x"])
     (auto simp: save_file_def Let_def)

lemma no_fio_read_file:
  "read_file E d f tr = (res, evs) \<Longrightarrow> filter is_cell_step evs = []"
  by (rule only_filter [where m = "read_file E d f"])
     (auto simp: read_file_def Let_def)

lemma no_fio_smart_log:
  "run_nvme_smart_log E d tr = (res, evs) \<Longrightarrow> filter is_cell_step evs = []"
  by (rule only_filter [where m = "run_nvme_smart_log E d"])
     (auto simp: run_nvme_smart_log_def run_def)

lemma ask_cases:
  assumes "ask c oracle e tr = (r, evs)"
  obtains (raised) "oracle tr = None" and "r = Inl e" and "evs = [Called c False]"
  | (answered) a where "oracle tr = Some a" and "r = Inr a" and "evs = [Called c True]"
  using assms by (auto simp: ask_def split: option.splits)

lemma bind_InrE:
  assumes "bind m f tr = (Inr b, evs)"
  obtains a e1 e2 where "m tr = (Inr a, e1)" and "f a (tr @ e1) = (Inr b, e2)"
    and "evs = e1 @ e2"
  using assms by (cases rule: bind_cases) auto

lemma then_io_InrE:
  assumes "then_io m k tr = (Inr b, evs)"
  obtains a e1 e2 where "m tr = (Inr a, e1)" and "k (tr @ e1) = (Inr b, e2)"
    and "evs = e1 @ e2"
  using assms unfolding then_io_def by (rule bind_InrE)

lemma ask_InrE:
  assumes "ask c oracle e tr = (Inr a, evs)"
  obtains "oracle tr = Some a" and "evs = [Called c True]"
  using assms by (cases rule: ask_cases) auto

lemma run_and_save_fio_Inr:
  assumes "run_and_save_fio E d job tr = (Inr j, evs)"
  obtains body where "json_loads E body = Some j"
    and "Called (Json_Loads body) True \<in> set evs"
    and "filter is_cell_step evs = [Called (Subprocess (fio_cmd d)) True]"
proof -
  from assms obtain u1 e1 u2 e2 res e3 u4 e4 body e5 e6
    where s1: "create_dir E d tr = (Inr u1, e1)"
      and s2: "save_file E d ''job.fio'' job (tr @ e1) = (Inr u2, e2)"
      and s3: "run E (fio_cmd d) (tr @ e1 @ e2) = (Inr res, e3)"
      and s4: "save_stdout_stderr E d res (tr @ e1 @ e2 @ e3) = (Inr u4, e4)"
      and s5: "read_file E d ''output.json'' (tr @ e1 @ e2 @ e3 @ e4) = (Inr body, e5)"
      and s6: "ask (Json_Loads body) (\<lambda>tr. json_loads E body) JSONDecodeError
                 (tr @ e1 @ e2 @ e3 @ e4 @ e5) = (Inr j, e6)"
      and evs: "evs = e1 @ e2 @ e3 @ e4 @ e5 @ e6"
    unfolding run_and_save_fio_def fio_cmd_def [symmetric]
    by (elim bind_InrE) auto
  from s3 have e3: "e3 = [Called (Subprocess (fio_cmd d)) True]"
    unfolding run_def by (rule ask_InrE)
  from s6 have j: "json_loads E body = Some j" and e6: "e6 = [Called (Json_Loads body) True]"
    by (auto elim: ask_InrE)
  have "filter is_cell_step evs = [Called (Subprocess (fio_cmd d)) True]"
    unfolding evs e3 e6
    by (simp add: no_fio_create_dir [OF s1] no_fio_save_file [OF s2]
        no_fio_save_stdout_stderr [OF s4] no_fio_read_file [OF s5] fio_cmd_def)
  moreover have "Called (Json_Loads body) True \<in> set evs"
    unfolding evs e6 by simp
  ultimately show ?thesis
    using that j by blast
qed

lemma mean_iops_Inr:
  assumes "mean_iops rr fio_result = Inr v"
  obtains r w where "job_iops fio_result ''read'' = Inr r"
    and "job_iops fio_result ''write'' = Inr w" and "v = blend rr r w"
  using assms
  by (auto simp: mean_iops_def then_sum_def blend_def Let_def split: sum.splits)

lemma iops_cell_Inr:
  assumes "iops_cell E a c n rr bs t tr = (Inr t', evs)"
  obtains body fio_result r w pre where "json_loads E body = Some fio_result"
    and "Called (Json_Loads body) True \<in> set evs"
    and "job_iops fio_result ''read'' = Inr r"
    and "job_iops fio_result ''write'' = Inr w"
    and "evs = pre @ [Logged (Cell_Iops n rr bs (blend rr r w))]"
    and "t' = track rr bs (blend rr r w) t"
    and "filter is_cell_step evs = cell_steps a c n (rr, bs)"
proof -
  from assms obtain res1 e1 u2 e2 job e3 fio_result e4 res5 e5 u6 e6 v e7 u8 e8 e9
    where s1: "run_nvme_smart_log E (dev a) tr = (Inr res1, e1)"
      and s2: "save_stdout_stderr E (cell_dir a n rr bs ''smart-before'') res1 (tr @ e1)
                = (Inr u2, e2)"
      and s3: "render E WDPC_IOPS_JOB_TPL (wdpc_kwargs a c rr bs) (tr @ e1 @ e2) = (Inr job, e3)"
      and s4: "run_and_save_fio E (cell_dir a n rr bs ''wdpc'') job (tr @ e1 @ e2 @ e3)
                = (Inr fio_result, e4)"
      and s5: "run_nvme_smart_log E (dev a) (tr @ e1 @ e2 @ e3 @ e4) = (Inr res5, e5)"
      and s6: "save_stdout_stderr E (cell_dir a n rr bs ''smart-after'') res5
                 (tr @ e1 @ e2 @ e3 @ e4 @ e5) = (Inr u6, e6)"
      and s7: "lift (mean_iops rr fio_result) (tr @ e1 @ e2 @ e3 @ e4 @ e5 @ e6) = (Inr v, e7)"
      and s8: "info (Cell_Iops n rr bs v) (tr @ e1 @ e2 @ e3 @ e4 @ e5 @ e6 @ e7) = (Inr u8, e8)"
      and s9: "ret (track rr bs v t) (tr @ e1 @ e2 @ e3 @ e4 @ e5 @ e6 @ e7 @ e8) = (Inr t', e9)"
      and evs: "evs = e1 @ e2 @ e3 @ e4 @ e5 @ e6 @ e7 @ e8 @ e9"
    unfolding iops_cell_def
    by (elim bind_InrE then_io_InrE) auto
  from s7 have v: "mean_iops rr fio_result = Inr v" and e7: "e7 = []"
    by (auto simp: lift_def)
  from s8 have e8: "e8 = [Logged (Cell_Iops n rr bs v)]"
    by (auto simp: info_def)
  from s9 have t': "t' = track rr bs v t" and e9: "e9 = []"
    by (auto simp: ret_def)
  from v obtain r w where r: "job_iops fio_result ''read'' = Inr r"
    and w: "job_iops fio_result ''write'' = Inr w" and vb: "v = blend rr r w"
    by (rule mean_iops_Inr)
  from s4 obtain body where j: "json_loads E body = Some fio_result"
    and m: "Called (Json_Loads body) True \<in> set e4"
    and f4: "filter is_cell_step e4 = [Called (Subprocess (fio_cmd (cell_dir a n rr bs ''wdpc''))) True]"
    by (rule run_and_save_fio_Inr)
  from s3 have e3: "e3 = [Called (Render WDPC_IOPS_JOB_TPL (wdpc_kwargs a c rr bs)) True]"
    unfolding render_def by (rule ask_InrE)
  have fl: "filter is_cell_step evs = cell_steps a c n (rr, bs)"
    unfolding evs e3 e7 e8 e9 cell_steps_def
    by (simp add: no_fio_smart_log [OF s1] no_fio_save_stdout_stderr [OF s2]
        f4 no_fio_smart_log [OF s5] no_fio_save_stdout_stderr [OF s6])
  have mem: "Called (Json_Loads body) True \<in> set evs"
    unfolding evs using m by simp
  have ev: "evs = (e1 @ e2 @ e3 @ e4 @ e5 @ e6) @ [Logged (Cell_Iops n rr bs (blend rr r w))]"
    unfolding evs e7 e8 e9 vb by simp
  show ?thesis
    using that [OF j mem r w ev _ fl] t' vb by simp
qed

section \<open>Calls answered by the collaborators\<close>

lemma faithful_append:
  "faithful E tr (e1 @ e2) = (faithful E tr e1 \<and> faithful E (tr @ e1) e2)"
proof (induction e1 arbitrary: tr)
  case Nil
  show ?case by simp
next
  case (Cons ev e1)
  show ?case
    by (cases ev) (simp_all add: Cons.IH)
qed

lemma faithful_nth:
  assumes "faithful E tr evs" and "i < length evs" and "evs ! i = Called c ok"
  shows "ok = answers E (tr @ take i evs) c"
proof -
  have "evs = take i evs @ evs ! i # drop (Suc i) evs"
    using assms(2) by (rule id_take_nth_drop)
  then have "faithful E tr (take i evs @ Called c ok # drop (Suc i) evs)"
    using assms(1,3) by simp
  then show ?thesis
    by (simp add: faithful_append)
qed

lemma honest_bind [intro!]:
  assumes "honest E m" and "\<And>a. honest E (f a)"
  shows "honest E (bind m f)"
  unfolding honest_def
proof
  fix tr
  obtain r evs where run: "bind m f tr = (r, evs)"
    by (cases "bind m f tr")
  from run show "faithful E tr (snd (bind m f tr))"
  proof (cases rule: bind_cases)
    case (stopped e)
    have "faithful E tr (snd (m tr))"
      using assms(1) unfolding honest_def ..
    then show ?thesis
      unfolding run stopped by simp
  next
    case (continued a e1 e2)
    have "faithful E tr (snd (m tr))"
      using assms(1) unfolding honest_def ..
    moreover have "faithful E (tr @ e1) (snd (f a (tr @ e1)))"
      using assms(2) [of a] unfolding honest_def ..
    ultimately show ?thesis
      unfolding run continued by (simp add: faithful_append)
  qed
qed

lemma honest_then_io [intro!]: "honest E m \<Longrightarrow> honest E k \<Longrightarrow> honest E (then_io m k)"
  unfolding then_io_def by (rule honest_bind)

lemma honest_ret [intro!]: "honest E (ret a)"
  by (simp add: honest_def ret_def)

lemma honest_abort [intro!]: "honest E (abort e)"
  by (simp add: honest_def abort_def)

lemma honest_lift [intro!]: "honest E (lift r)"
  by (simp add: honest_def lift_def)

lemma honest_info [intro!]: "honest E (info l)"
  by (simp add: honest_def info_def)

lemma honest_ask [intro!]:
  assumes "\<And>tr. (oracle tr \<noteq> None) = answers E tr c"
  shows "honest E (ask c oracle e)"
  unfolding honest_def
proof
  fix tr
  show "faithful E tr (snd (ask c oracle e tr))"
    using assms [of tr] by (cases "oracle tr") (simp_all add: ask_def)
qed

lemma honest_for_each [intro!]:
  assumes "\<And>x. honest E (f x)"
  shows "honest E (for_each f xs)"
  by (induction xs) (auto intro: assms)

lemma honest_for_loop [intro!]:
  assumes "\<And>x s. honest E (body x s)"
  shows "honest E (for_loop body xs s)"
  by (induction xs arbitrary: s) (auto intro: assms)

lemma honest_if [intro!]: "(b \<Longrightarrow> honest E m) \<Longrightarrow> (\<not> b \<Longrightarrow> honest E k) \<Longrightarrow> honest E (if b then m else k)"
  by simp

lemma honest_save_file [intro!]: "honest E (save_file E d f x)"
  unfolding save_file_def Let_def by auto

lemma honest_read_file [intro!]: "honest E (read_file E d f)"
  unfolding read_file_def Let_def by auto

lemma honest_create_dir [intro!]: "honest E (create_dir E d)"
  unfolding create_dir_def by auto

lemma honest_run [intro!]: "honest E (run E cmd)"
  unfolding run_def by auto

lemma honest_decode [intro!]: "honest E (decode E b)"
  unfolding decode_def by auto

lemma honest_save_stdout_stderr [intro!]: "honest E (save_stdout_stderr E d r)"
  unfolding save_stdout_stderr_def by auto

lemma honest_save_dict [intro!]: "honest E (save_dict E d j)"
  unfolding save_dict_def by auto

lemma honest_read_dir_files [intro!]: "honest E (read_dir_files E d ns)"
  unfolding read_dir_files_def by auto

lemma honest_read_dir [intro!]: "honest E (read_dir E d)"
  unfolding read_dir_def by auto

lemma honest_get_queue_info [intro!]: "honest E (get_queue_info E d)"
  unfolding get_queue_info_def by auto

lemma honest_get_nvme_module_info [intro!]: "honest E (get_nvme_module_info E)"
  unfolding get_nvme_module_info_def by auto

lemma honest_runs [intro!]:
  "honest E (run_lshw E)" "honest E (run_lspci E)" "honest E (run_nvme_list E)" "honest E (run_nvme_id_ctrl E d)"
  "honest E (run_nvme_smart_log E d)" "honest E (run_nvme_get_feature E d fid)"
  "honest E (run_nvme_set_feature E d fid v)" "honest E (run_nvme_format E d)"
  unfolding run_lshw_def run_lspci_def run_nvme_list_def run_nvme_id_ctrl_def
    run_nvme_smart_log_def run_nvme_get_feature_def run_nvme_set_feature_def
    run_nvme_format_def
  by auto

lemma honest_match_or_exit [intro!]: "honest E (match_or_exit E p l)"
  unfolding match_or_exit_def by auto

lemma honest_get_nvme_feature [intro!]: "honest E (get_nvme_feature E d fid)"
  unfolding get_nvme_feature_def by (auto split: list.splits)

lemma honest_get_nvme_features [intro!]: "honest E (get_nvme_features E d)"
  unfolding get_nvme_features_def by auto

lemma honest_get_nvme_namespace [intro!]: "honest E (get_nvme_namespace E data d)"
  unfolding get_nvme_namespace_def Let_def by (auto split: option.splits)

lemma honest_run_and_save_fio [intro!]: "honest E (run_and_save_fio E d job)"
  unfolding run_and_save_fio_def by auto

lemma honest_render [intro!]: "honest E (render E tpl kw)"
  unfolding render_def by auto

lemma honest_save_run [intro!]: "honest E m \<Longrightarrow> honest E (save_run E a sub m)"
  unfolding save_run_def by auto

lemma honest_iops_conditions [intro!]: "honest E (iops_conditions E a)"
  unfolding iops_conditions_def by auto

lemma honest_iops_purge [intro!]: "honest E (iops_purge E a)"
  unfolding iops_purge_def by auto

lemma honest_iops_mode [intro!]: "honest E (iops_mode E a ps)"
  unfolding iops_mode_def by auto

lemma honest_iops_wipc [intro!]: "honest E (iops_wipc E a ps ar qd tc)"
  unfolding iops_wipc_def by auto

lemma honest_iops_cell [intro!]: "honest E (iops_cell E a c n rr bs t)"
  unfolding iops_cell_def by auto

lemma honest_iops_round [intro!]: "honest E (iops_round E a c n t)"
  unfolding iops_round_def by auto

lemma honest_iops_loop [intro!]: "honest E (iops_loop E a c ns rn t)"
  by (induction ns arbitrary: rn t) auto

lemma honest_iops_report [intro!]: "honest E (iops_report rn)"
  unfolding iops_report_def by (auto split: option.splits)

lemma honest_iops_session [intro!]: "honest E (iops_session E a c)"
  unfolding iops_session_def iops_measure_def by (auto split: prod.splits)

lemma honest_iops: "honest E (iops E a)"
  unfolding iops_def Let_def by (auto split: prod.splits)

section \<open>A round\<close>

lemma grown_iff: "grown ys ys' k \<longleftrightarrow> (\<exists>v. length v = k \<and> ys' = ys @ v)"
proof
  assume g: "grown ys ys' k"
  then have "ys' = ys @ drop (length ys) ys'"
    unfolding grown_def by (metis append_take_drop_id)
  moreover have "length (drop (length ys) ys') = k"
    using g unfolding grown_def by simp
  ultimately show "\<exists>v. length v = k \<and> ys' = ys @ v"
    by blast
next
  assume "\<exists>v. length v = k \<and> ys' = ys @ v"
  then show "grown ys ys' k"
    unfolding grown_def by auto
qed

lemma grown_refl: "grown ys ys 0"
  by (simp add: grown_def)

lemma grown_trans:
  assumes "grown xs ys a" and "grown ys zs b"
  shows "grown xs zs (a + b)"
proof -
  from assms(1) obtain u where u: "length u = a" "ys = xs @ u"
    unfolding grown_iff by blast
  from assms(2) obtain v where v: "length v = b" "zs = ys @ v"
    unfolding grown_iff by blast
  have "length (u @ v) = a + b \<and> zs = xs @ (u @ v)"
    using u v by simp
  then show ?thesis
    unfolding grown_iff by blast
qed

lemma extended_refl: "extended t t 0 0 0"
  by (simp add: extended_def grown_refl)

lemma extended_trans:
  assumes "extended t t' a b c" and "extended t' t'' a' b' c'"
  shows "extended t t'' (a + a') (b + b') (c + c')"
  using assms unfolding extended_def
  by (blast intro: grown_trans)

lemma extended_track:
  "extended t (track rr bs v t)
     (if (rr, bs) = (0, ''4k'') then 1 else 0)
     (if (rr, bs) = (65, ''64k'') then 1 else 0)
     (if (rr, bs) = (100, ''1024k'') then 1 else 0)"
  by (simp add: extended_def track_def grown_def)

text \<open>How often a cell occurs in a list of cells.\<close>

lemma hits_Cons:
  "count_list (c # cs) p = (if c = p then 1 else 0) + count_list cs p"
  by simp

lemma inner_loop_Inr:
  assumes "for_loop (\<lambda>bs. iops_cell E a c n rr bs) bss t tr = (Inr t', evs)"
  shows "extended t t' (count_list (map (Pair rr) bss) (0, ''4k''))
           (count_list (map (Pair rr) bss) (65, ''64k''))
           (count_list (map (Pair rr) bss) (100, ''1024k''))
         \<and> filter is_cell_step evs = concat (map (cell_steps a c n) (map (Pair rr) bss))"
  using assms
proof (induction bss arbitrary: t tr evs)
  case Nil
  then show ?case
    by (simp add: ret_def extended_refl)
next
  case (Cons bs bss)
  from Cons.prems obtain t1 e1 e2
    where s1: "iops_cell E a c n rr bs t tr = (Inr t1, e1)"
      and s2: "for_loop (\<lambda>bs. iops_cell E a c n rr bs) bss t1 (tr @ e1) = (Inr t', e2)"
      and evs: "evs = e1 @ e2"
    by (auto elim: bind_InrE)
  from s1 obtain v where t1: "t1 = track rr bs v t"
    and f1: "filter is_cell_step e1 = cell_steps a c n (rr, bs)"
    by (auto elim: iops_cell_Inr)
  have x1: "extended t t1
     (if (rr, bs) = (0, ''4k'') then 1 else 0)
     (if (rr, bs) = (65, ''64k'') then 1 else 0)
     (if (rr, bs) = (100, ''1024k'') then 1 else 0)"
    unfolding t1 by (rule extended_track)
  note ih = Cons.IH [OF s2]
  have cnt: "count_list (map (Pair rr) (bs # bss)) p
               = (if (rr, bs) = p then 1 else 0) + count_list (map (Pair rr) bss) p" for p
    by simp
  show ?case
  proof (intro conjI)
    show "extended t t' (count_list (map (Pair rr) (bs # bss)) (0, ''4k''))
           (count_list (map (Pair rr) (bs # bss)) (65, ''64k''))
           (count_list (map (Pair rr) (bs # bss)) (100, ''1024k''))"
      unfolding cnt using x1 ih by (blast intro: extended_trans)
    show "filter is_cell_step evs = concat (map (cell_steps a c n) (map (Pair rr) (bs # bss)))"
      using ih f1 by (simp add: evs)
  qed
qed

lemma outer_loop_Inr:
  assumes "for_loop (\<lambda>rr. for_loop (\<lambda>bs. iops_cell E a c n rr bs) bss) rrs t tr = (Inr t', evs)"
  shows "extended t t'
           (count_list (concat (map (\<lambda>rr. map (Pair rr) bss) rrs)) (0, ''4k''))
           (count_list (concat (map (\<lambda>rr. map (Pair rr) bss) rrs)) (65, ''64k''))
           (count_list (concat (map (\<lambda>rr. map (Pair rr) bss) rrs)) (100, ''1024k''))
         \<and> filter is_cell_step evs = concat (map (cell_steps a c n) (concat (map (\<lambda>rr. map (Pair rr) bss) rrs)))"
  using assms
proof (induction rrs arbitrary: t tr evs)
  case Nil
  then show ?case
    by (simp add: ret_def extended_refl)
next
  case (Cons rr rrs)
  from Cons.prems obtain t1 e1 e2
    where s1: "for_loop (\<lambda>bs. iops_cell E a c n rr bs) bss t tr = (Inr t1, e1)"
      and s2: "for_loop (\<lambda>rr. for_loop (\<lambda>bs. iops_cell E a c n rr bs) bss) rrs t1 (tr @ e1)
                 = (Inr t', e2)"
      and evs: "evs = e1 @ e2"
    by (auto elim: bind_InrE)
  note x1 = inner_loop_Inr [OF s1]
  note ih = Cons.IH [OF s2]
  have cnt: "count_list (concat (map (\<lambda>rr. map (Pair rr) bss) (rr # rrs))) p
               = count_list (map (Pair rr) bss) p
                 + count_list (concat (map (\<lambda>rr. map (Pair rr) bss) rrs)) p" for p
    by (simp add: count_list_append)
  show ?case
  proof (intro conjI)
    show "extended t t' (count_list (concat (map (\<lambda>rr. map (Pair rr) bss) (rr # rrs))) (0, ''4k''))
           (count_list (concat (map (\<lambda>rr. map (Pair rr) bss) (rr # rrs))) (65, ''64k''))
           (count_list (concat (map (\<lambda>rr. map (Pair rr) bss) (rr # rrs))) (100, ''1024k''))"
      unfolding cnt using x1 ih by (blast intro: extended_trans)
    show "filter is_cell_step evs
            = concat (map (cell_steps a c n) (concat (map (\<lambda>rr. map (Pair rr) bss) (rr # rrs))))"
      using ih x1 by (simp add: evs)
  qed
qed

lemma matrix_counts:
  "count_list workload_matrix (0, ''4k'') = 1"
  "count_list workload_matrix (65, ''64k'') = 1"
  "count_list workload_matrix (100, ''1024k'') = 1"
  by (simp_all add: workload_matrix_def mix_ratios_def block_sizes_def)

lemma iops_round_Inr:
  assumes "iops_round E a c n t tr = (Inr t', evs)"
  shows "extended t t' 1 1 1"
    and "filter is_cell_step evs = concat (map (cell_steps a c n) workload_matrix)"
proof -
  have m: "concat (map (\<lambda>rr. map (Pair rr) block_sizes) mix_ratios) = workload_matrix"
    by (simp add: workload_matrix_def)
  note x = outer_loop_Inr [OF assms [unfolded iops_round_def], unfolded m matrix_counts]
  from x show "extended t t' 1 1 1" ..
  from x show "filter is_cell_step evs = concat (map (cell_steps a c n) workload_matrix)" ..
qed

section \<open>Runs in the simulated environment\<close>

lemma yieldsD:
  assumes "yields K m a ls"
  obtains evs where "m tr = (Inr a, evs)" and "filter K evs = ls"
  using assms unfolding yields_def by (metis prod.collapse)

lemma yields_bind:
  assumes "yields K m a l1" and "yields K (f a) b l2" and "l = l1 @ l2"
  shows "yields K (bind m f) b l"
  unfolding yields_def
proof
  fix tr
  from assms(1) obtain e1 where m: "m tr = (Inr a, e1)" and f1: "filter K e1 = l1"
    by (rule yieldsD)
  from assms(2) obtain e2 where f: "f a (tr @ e1) = (Inr b, e2)" and f2: "filter K e2 = l2"
    by (rule yieldsD)
  show "fst (bind m f tr) = Inr b \<and> filter K (snd (bind m f tr)) = l"
    by (simp add: bind_def m f f1 f2 assms(3))
qed

lemma yields_then_io:
  assumes "yields K m a l1" and "yields K k b l2" and "l = l1 @ l2"
  shows "yields K (then_io m k) b l"
  unfolding then_io_def using assms by (rule yields_bind)

lemma yields_ret: "yields K (ret a) a []"
  by (simp add: yields_def ret_def)

lemma yields_lift: "yields K (lift (Inr a)) a []"
  by (simp add: yields_def lift_def)

lemma yields_info: "yields K (info l) () (filter K [Logged l])"
  by (simp add: yields_def info_def)

lemma yields_for_loop:
  assumes "\<And>x s. yields K (body x s) (step x s) (lines x)"
  shows "yields K (for_loop body xs s) (fold step xs s) (concat (map lines xs))"
proof (induction xs arbitrary: s)
  case Nil
  show ?case by (simp add: yields_ret)
next
  case (Cons x xs)
  have "yields K (bind (body x s) (for_loop body xs)) (fold step xs (step x s))
          (lines x @ concat (map lines xs))"
    using assms Cons.IH refl by (rule yields_bind)
  then show ?case by simp
qed

lemma sim_create_dir:
  assumes "quiet K"
  shows "yields K (create_dir (sim_env ok dv f) d) () []"
  using assms
  by (simp add: yields_def create_dir_def bind_def ask_def ret_def sim_env_def quiet_def)

lemma sim_save_file:
  assumes "quiet K"
  shows "yields K (save_file (sim_env ok dv f) d n x) () []"
  using assms
  by (simp add: yields_def save_file_def ask_def sim_env_def quiet_def)

lemma sim_read_file:
  assumes "quiet K"
  shows "yields K (read_file (sim_env ok dv f) d n) (rstrip (path_join d [n])) []"
  using assms
  by (simp add: yields_def read_file_def Let_def bind_def ask_def ret_def sim_env_def quiet_def)

lemma sim_run:
  assumes "quiet K" and "ok cmd"
  shows "yields K (run (sim_env ok dv f) cmd) \<lparr>stdout = [], stderr = []\<rparr> []"
  using assms
  by (simp add: yields_def run_def ask_def sim_env_def quiet_def)

lemma sim_render:
  assumes "quiet K"
  shows "yields K (render (sim_env ok dv f) tpl kw) [] []"
  using assms
  by (simp add: yields_def render_def ask_def sim_env_def quiet_def)

lemma sim_json_loads:
  assumes "quiet K"
  shows "yields K (ask (Json_Loads s) (\<lambda>tr. json_loads (sim_env ok dv f) s) e)
           (sim_json dv f s) []"
  using assms
  by (simp add: yields_def ask_def sim_env_def quiet_def)

lemma sim_save_stdout_stderr:
  assumes "quiet K"
  shows "yields K (save_stdout_stderr (sim_env ok dv f) d \<lparr>stdout = [], stderr = []\<rparr>) () []"
proof -
  have "yields K (bind (create_dir (sim_env ok dv f) d) (\<lambda>_. bind (ret ()) (\<lambda>_. ret ()))) () []"
    by (rule yields_bind sim_create_dir assms yields_ret | simp)+
  then show ?thesis
    by (simp add: save_stdout_stderr_def)
qed

lemma sim_run_and_save_fio:
  assumes "quiet K" and "ok (fio_cmd d)"
  shows "yields K (run_and_save_fio (sim_env ok dv f) d job)
           (sim_json dv f (rstrip (path_join d [''output.json'']))) []"
  unfolding run_and_save_fio_def fio_cmd_def [symmetric]
  by (rule yields_bind sim_create_dir sim_save_file sim_run [where ok = ok]
      sim_save_stdout_stderr sim_read_file sim_json_loads assms | simp)+

lemma mean_iops_sim_json: "mean_iops rr (sim_json dv f s) = Inr (blend rr (fst (f s)) (snd (f s)))"
  by (simp add: mean_iops_def job_iops_def sim_json_def getitem_def getitem_0_def as_number_def
      then_sum_def blend_def)

lemma sim_smart_log:
  assumes "quiet K" and "ok (smart_log_cmd (dev a))"
  shows "yields K (bind (run_nvme_smart_log (sim_env ok dv f) (dev a))
                  (save_stdout_stderr (sim_env ok dv f) d)) () []"
  unfolding run_nvme_smart_log_def smart_log_cmd_def [symmetric]
  by (rule yields_bind sim_run [where ok = ok] sim_save_stdout_stderr assms | simp)+

lemma sim_iops_cell:
  assumes "quiet K"
    and "ok (fio_cmd (cell_dir a n rr bs ''wdpc''))" and "ok (smart_log_cmd (dev a))"
  shows "yields K (iops_cell (sim_env ok dv f) a c n rr bs t)
           (track rr bs (blend rr (fst (f (sim_text a n rr bs))) (snd (f (sim_text a n rr bs)))) t)
           (filter K [Logged (Cell_Iops n rr bs
               (blend rr (fst (f (sim_text a n rr bs))) (snd (f (sim_text a n rr bs)))))])"
  unfolding iops_cell_def sim_text_def
  by (rule yields_then_io sim_smart_log [where ok = ok] yields_bind sim_render
      sim_run_and_save_fio [where ok = ok] yields_lift yields_info yields_ret assms
      | simp add: mean_iops_sim_json)+


lemma sim_iops_round:
  assumes "quiet K"
    and "\<And>rr bs. ok (fio_cmd (cell_dir a n rr bs ''wdpc''))" and "ok (smart_log_cmd (dev a))"
  shows "yields K (iops_round (sim_env ok dv f) a c n t)
           (fold (\<lambda>rr. fold (\<lambda>bs. track rr bs
               (blend rr (fst (f (sim_text a n rr bs))) (snd (f (sim_text a n rr bs)))))
               block_sizes) mix_ratios t)
           (concat (map (\<lambda>rr. concat (map (\<lambda>bs. filter K [Logged (Cell_Iops n rr bs
               (blend rr (fst (f (sim_text a n rr bs))) (snd (f (sim_text a n rr bs)))))])
               block_sizes)) mix_ratios))"
  unfolding iops_round_def
  by (rule yields_for_loop yields_for_loop sim_iops_cell [where ok = ok] assms)+

lemma fold_tracks:
  "fold (\<lambda>rr. fold (\<lambda>bs. track rr bs (v rr bs)) block_sizes) mix_ratios t
     = \<lparr>rr0_4k_iops = rr0_4k_iops t @ [v 0 ''4k''],
        rr65_64k_iops = rr65_64k_iops t @ [v 65 ''64k''],
        rr100_1024k_iops = rr100_1024k_iops t @ [v 100 ''1024k'']\<rparr>"
  by (simp add: mix_ratios_def block_sizes_def track_def)

section \<open>The loop over the rounds\<close>

lemma all_steady_eq: "all_steady t = Inr (all_stable t)"
proof -
  obtain b1 where b1: "in_steady_state (rr0_4k_iops t) 5 = Inr b1"
    using in_steady_state5_total by blast
  obtain b2 where b2: "in_steady_state (rr65_64k_iops t) 5 = Inr b2"
    using in_steady_state5_total by blast
  obtain b3 where b3: "in_steady_state (rr100_1024k_iops t) 5 = Inr b3"
    using in_steady_state5_total by blast
  show ?thesis
    by (simp add: all_steady_def all_stable_def MEASUREMENT_WINDOW_def then_sum_def b1 b2 b3)
qed

lemma first_rounds_id: "lengths t j \<Longrightarrow> first_rounds j t = t"
  by (simp add: lengths_def first_rounds_def)

lemma first_rounds_twice: "i \<le> j \<Longrightarrow> first_rounds i (first_rounds j s) = first_rounds i s"
  by (simp add: first_rounds_def min_def)

lemma lengths_unique: "lengths s k \<Longrightarrow> lengths s k' \<Longrightarrow> k = k'"
  by (simp add: lengths_def)

lemma extended_one:
  assumes "extended t t1 1 1 1" and "lengths t j"
  shows "lengths t1 (Suc j)" and "first_rounds j t1 = t"
  using assms by (simp_all add: extended_def grown_def lengths_def first_rounds_def)

lemma round_line_eq:
  assumes "first_rounds n s = t1"
  shows "round_line s n
           = Logged (Round_Finished n (rr0_4k_iops t1) (rr65_64k_iops t1) (rr100_1024k_iops t1))"
  using assms by (auto simp: round_line_def first_rounds_def)

lemma no_round_line_round:
  assumes "iops_round E a c n t tr = (res, evs)"
  shows "filter is_round_line evs = []"
  using no_round_line_iops_round assms by (rule only_filter)

lemma no_steady_break_round:
  assumes "iops_round E a c n t tr = (res, evs)"
  shows "Logged Steady_Break \<notin> set evs"
proof -
  have "only (\<lambda>e. e \<noteq> Logged Steady_Break) (iops_round E a c n t)"
    by (rule only_iops_round) simp_all
  then have "list_all (\<lambda>e. e \<noteq> Logged Steady_Break) (snd (iops_round E a c n t tr))"
    unfolding only_def ..
  then show ?thesis
    unfolding assms by (auto simp: list_all_iff)
qed

lemma iops_loop_step:
  assumes "iops_loop E a c (n # ns) rn t tr = (res, evs)"
  obtains (round_failed) e where "iops_round E a c n t tr = (Inl e, evs)" and "res = Inl e"
  | (steady) t1 e1 where "iops_round E a c n t tr = (Inr t1, e1)"
      and "all_stable t1" and "res = Inr (Some n, t1)"
      and "evs = e1 @ [Logged (Round_Finished n (rr0_4k_iops t1) (rr65_64k_iops t1)
                                 (rr100_1024k_iops t1)), Logged Steady_Break]"
  | (continue) t1 e1 e2 where "iops_round E a c n t tr = (Inr t1, e1)"
      and "\<not> all_stable t1"
      and "iops_loop E a c ns (Some n) t1
             (tr @ e1 @ [Logged (Round_Finished n (rr0_4k_iops t1) (rr65_64k_iops t1)
                                   (rr100_1024k_iops t1))]) = (res, e2)"
      and "evs = e1 @ [Logged (Round_Finished n (rr0_4k_iops t1) (rr65_64k_iops t1)
                                 (rr100_1024k_iops t1))] @ e2"
  using assms
  unfolding iops_loop.simps
proof (cases rule: bind_cases)
  case (stopped e)
  then show ?thesis by (rule round_failed)
next
  case (continued t1 e1 e2)
  show ?thesis
  proof (cases "all_stable t1")
    case True
    with continued(2) have "res = Inr (Some n, t1)"
      and "e2 = [Logged (Round_Finished n (rr0_4k_iops t1) (rr65_64k_iops t1)
                           (rr100_1024k_iops t1)), Logged Steady_Break]"
      by (auto simp: then_io_def bind_def info_def lift_def ret_def all_steady_eq)
    then show ?thesis
      using continued True by (intro steady) auto
  next
    case False
    with continued(2) obtain e3 where "iops_loop E a c ns (Some n) t1
             (tr @ e1 @ [Logged (Round_Finished n (rr0_4k_iops t1) (rr65_64k_iops t1)
                                   (rr100_1024k_iops t1))]) = (res, e3)"
      and "e2 = Logged (Round_Finished n (rr0_4k_iops t1) (rr65_64k_iops t1)
                           (rr100_1024k_iops t1)) # e3"
      by (auto simp: then_io_def bind_def info_def lift_def ret_def all_steady_eq
          split: prod.splits sum.splits)
    then show ?thesis
      using continued False by (intro continue) auto
  qed
qed


lemma upt_Suc_Cons:
  assumes "n # ns = [Suc j ..< m]"
  shows "n = Suc j \<and> ns = [Suc (Suc j) ..< m] \<and> Suc j < m"
proof -
  from assms have "[Suc j ..< m] = n # ns" by simp
  then show ?thesis by (auto simp: upt_eq_Cons_conv)
qed

lemma iops_loop_run:
  assumes "iops_loop E a c ns rn t tr = (res, evs)"
    and "ns = [Suc j ..< m]" and "j < m" and "lengths t j"
  shows "\<exists>k s. loop_post E a c j m rn t res evs k s"
  using assms
proof (induction ns arbitrary: j t tr rn evs res)
  case Nil
  from Nil.prems(2) have "[Suc j ..< m] = []" by simp
  with Nil.prems(3) have m: "Suc j = m" by simp
  from Nil.prems(1) have res: "res = Inr (rn, t)" and evs: "evs = []"
    by (auto simp: ret_def)
  have "loop_post E a c j m rn t res evs j t"
    unfolding loop_post_def
    using Nil.prems(3,4) m by (auto simp: res evs first_rounds_id)
  then show ?case by blast
next
  case (Cons n ns)
  have n: "n = Suc j" and ns: "ns = [Suc (Suc j) ..< m]" and jm: "Suc j < m"
    using upt_Suc_Cons [OF Cons.prems(2)] by simp_all
  from Cons.prems(1) show ?case
  proof (cases rule: iops_loop_step)
    case (round_failed e)
    have lines: "filter is_round_line evs = []"
      using round_failed(1) by (rule no_round_line_round)
    have "\<exists>n t' tr' evs'. j < n \<and> n < m \<and> iops_round E a c n t' tr' = (Inl e, evs')"
      using round_failed(1) n jm by blast
    then have "loop_post E a c j m rn t res evs j t"
      unfolding loop_post_def
      using Cons.prems(3,4) by (auto simp: round_failed(2) lines first_rounds_id)
    then show ?thesis by blast
  next
    case (steady t1 e1)
    note x = extended_one [OF iops_round_Inr(1) [OF steady(1)] Cons.prems(4)]
    have e1: "filter is_round_line e1 = []"
      using steady(1) by (rule no_round_line_round)
    have e1s: "Logged Steady_Break \<notin> set e1"
      using steady(1) by (rule no_steady_break_round)
    have rl: "round_line t1 (Suc j)
                = Logged (Round_Finished n (rr0_4k_iops t1) (rr65_64k_iops t1) (rr100_1024k_iops t1))"
      unfolding n by (rule round_line_eq) (rule first_rounds_id [OF x(1)])
    have lines: "filter is_round_line evs = map (round_line t1) [Suc j ..< Suc (Suc j)]"
      by (simp add: steady(4) e1 rl)
    have "loop_post E a c j m rn t res evs (Suc j) t1"
      unfolding loop_post_def lines
      using jm x steady(2) by (auto simp: steady(3,4) n)
    then show ?thesis by blast
  next
    case (continue t1 e1 e2)
    note x = extended_one [OF iops_round_Inr(1) [OF continue(1)] Cons.prems(4)]
    have e1: "filter is_round_line e1 = []"
      using continue(1) by (rule no_round_line_round)
    have e1s: "Logged Steady_Break \<notin> set e1"
      using continue(1) by (rule no_steady_break_round)
    from Cons.IH [OF continue(3) ns jm x(1)]
    obtain k s where ih: "loop_post E a c (Suc j) m (Some n) t1 res e2 k s"
      by blast
    then have k: "Suc j \<le> k" "k < m" and s: "lengths s k" "first_rounds (Suc j) s = t1"
      and l2: "filter is_round_line e2 = map (round_line s) [Suc (Suc j) ..< Suc k]"
      and un: "\<forall>i. Suc j < i \<and> i < k \<longrightarrow> \<not> all_stable (first_rounds i s)"
      unfolding loop_post_def by simp_all
    have fr: "first_rounds j s = t"
      using first_rounds_twice [of j "Suc j" s] s(2) x(2) by simp
    have rl: "round_line s (Suc j)
                = Logged (Round_Finished n (rr0_4k_iops t1) (rr65_64k_iops t1) (rr100_1024k_iops t1))"
      unfolding n using s(2) by (rule round_line_eq)
    have up: "[Suc j ..< Suc k] = Suc j # [Suc (Suc j) ..< Suc k]"
      using k(1) by (simp add: upt_conv_Cons)
    have lines: "filter is_round_line evs = map (round_line s) [Suc j ..< Suc k]"
      unfolding up by (simp add: continue(4) e1 l2 rl)
    have un': "\<forall>i. j < i \<and> i < k \<longrightarrow> \<not> all_stable (first_rounds i s)"
    proof (intro allI impI)
      fix i assume i: "j < i \<and> i < k"
      show "\<not> all_stable (first_rounds i s)"
      proof (cases "i = Suc j")
        case True
        then show ?thesis using s(2) continue(2) by simp
      next
        case False
        then show ?thesis using un i by simp
      qed
    qed
    have st: "k = Suc j \<Longrightarrow> s = t1"
      using s first_rounds_id by metis
    have kj: "k \<noteq> j" using k(1) by simp
    have mem: "Logged Steady_Break \<in> set evs \<longleftrightarrow> Logged Steady_Break \<in> set e2"
      using e1s by (simp add: continue(4))
    have res': "case res of
                 Inr (rn', t') \<Rightarrow>
                   t' = s \<and> rn' = (if k = j then rn else Some k)
                   \<and> (Logged Steady_Break \<in> set evs \<longleftrightarrow> k \<noteq> j \<and> all_stable s)
                   \<and> (k = j \<longrightarrow> Suc j = m)
                   \<and> (k \<noteq> j \<and> \<not> all_stable s \<longrightarrow> Suc k = m)
               | Inl e \<Rightarrow>
                   \<exists>n t' tr' evs'. j < n \<and> n < m \<and> iops_round E a c n t' tr' = (Inl e, evs')"
    proof (cases res)
      case (Inl e)
      from ih obtain n' t' tr' evs' where "Suc j < n'" and "n' < m"
        and "iops_round E a c n' t' tr' = (Inl e, evs')"
        unfolding loop_post_def Inl by auto
      then have "j < n' \<and> n' < m \<and> iops_round E a c n' t' tr' = (Inl e, evs')"
        by simp
      then show ?thesis
        unfolding Inl by auto
    next
      case (Inr p)
      obtain rn' t' where p: "p = (rn', t')" by (cases p)
      from ih have r1: "t' = s" and r2: "rn' = (if k = Suc j then Some n else Some k)"
        and r3: "Logged Steady_Break \<in> set e2 \<longleftrightarrow> k \<noteq> Suc j \<and> all_stable s"
        and r4: "k = Suc j \<longrightarrow> Suc (Suc j) = m"
        and r5: "k \<noteq> Suc j \<and> \<not> all_stable s \<longrightarrow> Suc k = m"
        unfolding loop_post_def Inr p by simp_all
      have a2: "rn' = (if k = j then rn else Some k)"
        using r2 kj n by simp
      have a3: "Logged Steady_Break \<in> set evs \<longleftrightarrow> k \<noteq> j \<and> all_stable s"
        unfolding mem r3 using kj st continue(2) by auto
      have a5: "k \<noteq> j \<and> \<not> all_stable s \<longrightarrow> Suc k = m"
        using r4 r5 by auto
      show ?thesis
        unfolding Inr p using r1 a2 a3 a5 kj by simp
    qed
    have "loop_post E a c j m rn t res evs k s"
      unfolding loop_post_def
      using k s(1) fr lines un' res' by simp
    then show ?thesis by blast
  qed
qed

section \<open>The loop in the simulated environment\<close>

lemma loop_kind_quiet: "loop_kind K \<Longrightarrow> quiet K"
  by (simp add: loop_kind_def)

lemma yields_loop_nil: "yields K (iops_loop E a c [] rn t) (rn, t) []"
  by (simp add: yields_ret)

lemma yields_loop_steady:
  assumes "yields K (iops_round E a c n t) t1 l1" and "all_stable t1"
  shows "yields K (iops_loop E a c (n # ns) rn t) (Some n, t1)
           (l1 @ filter K [Logged (Round_Finished n (rr0_4k_iops t1) (rr65_64k_iops t1)
                                     (rr100_1024k_iops t1)), Logged Steady_Break])"
proof -
  have rest: "yields K
      (then_io (info (Round_Finished n (rr0_4k_iops t1) (rr65_64k_iops t1) (rr100_1024k_iops t1)))
         (bind (lift (all_steady t1))
            (\<lambda>steady. if steady then then_io (info Steady_Break) (ret (Some n, t1))
                       else iops_loop E a c ns (Some n) t1)))
      (Some n, t1)
      (filter K [Logged (Round_Finished n (rr0_4k_iops t1) (rr65_64k_iops t1)
                           (rr100_1024k_iops t1)), Logged Steady_Break])"
    using assms(2)
    by (simp add: yields_def then_io_def bind_def info_def lift_def ret_def all_steady_eq)
  show ?thesis
    unfolding iops_loop.simps
    using assms(1) rest refl by (rule yields_bind)
qed

lemma yields_loop_continue:
  assumes "yields K (iops_round E a c n t) t1 l1" and "\<not> all_stable t1"
    and "yields K (iops_loop E a c ns (Some n) t1) res l2"
  shows "yields K (iops_loop E a c (n # ns) rn t) res
           (l1 @ filter K [Logged (Round_Finished n (rr0_4k_iops t1) (rr65_64k_iops t1)
                                     (rr100_1024k_iops t1))] @ l2)"
proof -
  have inner: "yields K
         (bind (lift (all_steady t1))
            (\<lambda>steady. if steady then then_io (info Steady_Break) (ret (Some n, t1))
                       else iops_loop E a c ns (Some n) t1)) res l2"
    unfolding all_steady_eq
    by (rule yields_bind [OF yields_lift]) (simp_all add: assms(2,3))
  have rest: "yields K
      (then_io (info (Round_Finished n (rr0_4k_iops t1) (rr65_64k_iops t1) (rr100_1024k_iops t1)))
         (bind (lift (all_steady t1))
            (\<lambda>steady. if steady then then_io (info Steady_Break) (ret (Some n, t1))
                       else iops_loop E a c ns (Some n) t1)))
      res
      (filter K [Logged (Round_Finished n (rr0_4k_iops t1) (rr65_64k_iops t1)
                           (rr100_1024k_iops t1))] @ l2)"
    using yields_info inner refl by (rule yields_then_io)
  show ?thesis
    unfolding iops_loop.simps
    using assms(1) rest refl by (rule yields_bind)
qed

lemma sim_round_tracked:
  assumes "loop_kind K" and "\<And>cmd. ok cmd"
  shows "yields K (iops_round (sim_env ok dv f) a c (Suc n) (sim_tracked f a n))
           (sim_tracked f a (Suc n)) []"
proof -
  have q: "quiet K" using assms(1) by (rule loop_kind_quiet)
  have nl: "filter K [Logged (Cell_Iops i rr bs v)] = []" for i rr bs v
    using assms(1) by (simp add: loop_kind_def)
  have t: "fold (\<lambda>rr. fold (\<lambda>bs. track rr bs (sim_value f a (Suc n) rr bs)) block_sizes)
             mix_ratios (sim_tracked f a n) = sim_tracked f a (Suc n)"
    unfolding fold_tracks by (simp add: sim_tracked_def)
  have "yields K (iops_round (sim_env ok dv f) a c (Suc n) (sim_tracked f a n))
           (fold (\<lambda>rr. fold (\<lambda>bs. track rr bs (sim_value f a (Suc n) rr bs)) block_sizes)
             mix_ratios (sim_tracked f a n))
           (concat (map (\<lambda>rr. concat (map (\<lambda>bs. filter K [Logged (Cell_Iops (Suc n) rr bs
               (sim_value f a (Suc n) rr bs))]) block_sizes)) mix_ratios))"
    unfolding sim_value_def
    by (rule sim_iops_round [OF q]) (rule assms(2))+
  moreover have "concat (map (\<lambda>rr. concat (map (\<lambda>bs. []) block_sizes)) mix_ratios)
                   = ([] :: event list)"
    by (simp add: mix_ratios_def block_sizes_def)
  ultimately show ?thesis
    unfolding t nl by simp
qed

lemma lengths_sim_tracked: "lengths (sim_tracked f a n) n"
  by (simp add: lengths_def sim_tracked_def)

lemma first_rounds_sim_tracked:
  assumes "i \<le> k"
  shows "first_rounds i (sim_tracked f a k) = sim_tracked f a i"
proof -
  have "take i [1 ..< Suc k] = [1 ..< 1 + i]"
    using assms by (intro take_upt) simp
  then show ?thesis
    by (simp add: first_rounds_def sim_tracked_def take_map)
qed

lemma round_line_sim_tracked:
  assumes "i \<le> k"
  shows "round_line (sim_tracked f a k) i
           = Logged (Round_Finished i (rr0_4k_iops (sim_tracked f a i))
               (rr65_64k_iops (sim_tracked f a i)) (rr100_1024k_iops (sim_tracked f a i)))"
  by (rule round_line_eq) (rule first_rounds_sim_tracked [OF assms])

lemma sim_loop:
  assumes "loop_kind K" and "\<And>cmd. ok cmd"
    and "d = k - Suc j" and "j < k" and "k < m"
    and "\<forall>i. j < i \<and> i < k \<longrightarrow> \<not> all_stable (sim_tracked f a i)"
    and "all_stable (sim_tracked f a k) \<or> Suc k = m"
  shows "yields K (iops_loop (sim_env ok dv f) a c [Suc j ..< m] rn (sim_tracked f a j))
           (Some k, sim_tracked f a k)
           (filter K (map (round_line (sim_tracked f a k)) [Suc j ..< Suc k]
              @ (if all_stable (sim_tracked f a k) then [Logged Steady_Break] else [])))"
  using assms(3-7)
proof (induction d arbitrary: j rn)
  case 0
  then have k: "k = Suc j" by simp
  have up: "[Suc j ..< m] = Suc j # [Suc (Suc j) ..< m]"
    using "0.prems"(3) k by (simp add: upt_conv_Cons)
  have upk: "[Suc j ..< Suc (Suc j)] = [Suc j]"
    by simp
  let ?line = "Logged (Round_Finished (Suc j) (rr0_4k_iops (sim_tracked f a (Suc j)))
                (rr65_64k_iops (sim_tracked f a (Suc j)))
                (rr100_1024k_iops (sim_tracked f a (Suc j))))"
  note r = sim_round_tracked [OF assms(1,2), where dv = dv and f = f and a = a and c = c and n = j]
  have rl: "round_line (sim_tracked f a (Suc j)) (Suc j) = ?line"
    by (rule round_line_sim_tracked) simp
  show ?case
    unfolding k
  proof (cases "all_stable (sim_tracked f a (Suc j))")
    case True
    have "yields K (iops_loop (sim_env ok dv f) a c (Suc j # [Suc (Suc j) ..< m]) rn
             (sim_tracked f a j)) (Some (Suc j), sim_tracked f a (Suc j))
           ([] @ filter K [?line, Logged Steady_Break])"
      using r True by (rule yields_loop_steady)
    moreover have "[] @ filter K [?line, Logged Steady_Break]
        = filter K (map (round_line (sim_tracked f a (Suc j))) [Suc j]
            @ (if all_stable (sim_tracked f a (Suc j)) then [Logged Steady_Break] else []))"
      using True by (simp add: rl)
    ultimately show "yields K (iops_loop (sim_env ok dv f) a c [Suc j ..< m] rn (sim_tracked f a j))
           (Some (Suc j), sim_tracked f a (Suc j))
           (filter K (map (round_line (sim_tracked f a (Suc j))) [Suc j ..< Suc (Suc j)]
              @ (if all_stable (sim_tracked f a (Suc j)) then [Logged Steady_Break] else [])))"
      unfolding up upk by (simp only:)
  next
    case False
    with "0.prems"(5) have m: "m = Suc (Suc j)" using k by simp
    have upm: "[Suc j ..< m] = [Suc j]"
      by (simp add: m)
    have "yields K (iops_loop (sim_env ok dv f) a c (Suc j # []) rn
             (sim_tracked f a j)) (Some (Suc j), sim_tracked f a (Suc j))
           ([] @ filter K [?line] @ [])"
      using r False yields_loop_nil by (rule yields_loop_continue)
    moreover have "[] @ filter K [?line] @ []
        = filter K (map (round_line (sim_tracked f a (Suc j))) [Suc j]
            @ (if all_stable (sim_tracked f a (Suc j)) then [Logged Steady_Break] else []))"
      using False by (simp add: rl)
    ultimately show "yields K (iops_loop (sim_env ok dv f) a c [Suc j ..< m] rn (sim_tracked f a j))
           (Some (Suc j), sim_tracked f a (Suc j))
           (filter K (map (round_line (sim_tracked f a (Suc j))) [Suc j ..< Suc (Suc j)]
              @ (if all_stable (sim_tracked f a (Suc j)) then [Logged Steady_Break] else [])))"
      unfolding upm upk by (simp only:)
  qed
next
  case (Suc d)
  then have jk: "Suc j < k" by simp
  have up: "[Suc j ..< m] = Suc j # [Suc (Suc j) ..< m]"
    using Suc.prems(2,3) by (simp add: upt_conv_Cons)
  have upk: "[Suc j ..< Suc k] = Suc j # [Suc (Suc j) ..< Suc k]"
    using Suc.prems(2) by (simp add: upt_conv_Cons)
  note r = sim_round_tracked [OF assms(1,2), where dv = dv and f = f and a = a and c = c and n = j]
  have ns: "\<not> all_stable (sim_tracked f a (Suc j))"
    using Suc.prems(4) jk by simp
  let ?line = "Logged (Round_Finished (Suc j) (rr0_4k_iops (sim_tracked f a (Suc j)))
                (rr65_64k_iops (sim_tracked f a (Suc j)))
                (rr100_1024k_iops (sim_tracked f a (Suc j))))"
  let ?tail = "map (round_line (sim_tracked f a k)) [Suc (Suc j) ..< Suc k]
              @ (if all_stable (sim_tracked f a k) then [Logged Steady_Break] else [])"
  have ih: "yields K (iops_loop (sim_env ok dv f) a c [Suc (Suc j) ..< m] (Some (Suc j))
              (sim_tracked f a (Suc j)))
           (Some k, sim_tracked f a k) (filter K ?tail)"
    using Suc.prems jk by (intro Suc.IH) auto
  have rl: "round_line (sim_tracked f a k) (Suc j) = ?line"
    using jk by (intro round_line_sim_tracked) simp
  have "yields K (iops_loop (sim_env ok dv f) a c (Suc j # [Suc (Suc j) ..< m]) rn
             (sim_tracked f a j)) (Some k, sim_tracked f a k)
           ([] @ filter K [?line] @ filter K ?tail)"
    using r ns ih by (rule yields_loop_continue)
  moreover have "[] @ filter K [?line] @ filter K ?tail
        = filter K (map (round_line (sim_tracked f a k)) (Suc j # [Suc (Suc j) ..< Suc k])
              @ (if all_stable (sim_tracked f a k) then [Logged Steady_Break] else []))"
    unfolding rl [symmetric] by (simp del: upt_Suc)
  ultimately show ?case
    unfolding up upk by (simp only:)
qed

lemma sim_measure:
  assumes "loop_kind K" and "\<And>cmd. ok cmd"
    and "0 < k" and "k < 26"
    and "\<forall>i. 0 < i \<and> i < k \<longrightarrow> \<not> all_stable (sim_tracked f a i)"
    and "all_stable (sim_tracked f a k) \<or> k = 25"
  shows "yields K (iops_measure (sim_env ok dv f) a c)
           (Some k, sim_tracked f a k)
           (filter K (map (round_line (sim_tracked f a k)) [1 ..< Suc k]
              @ (if all_stable (sim_tracked f a k) then [Logged Steady_Break] else [])))"
proof -
  have t0: "no_tracked = sim_tracked f a 0"
    by (simp add: no_tracked_def sim_tracked_def)
  have u: "[1 ..< 26] = [Suc 0 ..< 26]" by simp
  have e: "all_stable (sim_tracked f a k) \<or> Suc k = 26"
    using assms(6) by auto
  show ?thesis
    unfolding iops_measure_def t0 u One_nat_def
    using assms(1,2) refl assms(3,4,5) e by (rule sim_loop)
qed

section \<open>Three sessions\<close>

lemma too_short_not_stable:
  assumes "lengths t n" and "n < 5"
  shows "\<not> all_stable t"
  using assms
  by (simp add: all_stable_def lengths_def in_steady_state_def steady_state_exit_def)

lemma unstable_first:
  assumes "in_steady_state (rr0_4k_iops t) 5 = Inr False"
  shows "\<not> all_stable t"
  using assms by (simp add: all_stable_def)

text \<open>Constant counters: the lists after five rounds.\<close>

lemma steady_tracked5:
  "sim_tracked (\<lambda>s. (1000, 500)) a 5
     = \<lparr>rr0_4k_iops = [500, 500, 500, 500, 500],
        rr65_64k_iops = [825, 825, 825, 825, 825],
        rr100_1024k_iops = [1000, 1000, 1000, 1000, 1000]\<rparr>"
  by (simp add: sim_tracked_def sim_value_def blend_def upt_conv_Cons)

lemma constant_window_stable:
  "in_steady_state [500, 500, 500, 500, 500] 5 = Inr True"
  "in_steady_state [825, 825, 825, 825, 825] 5 = Inr True"
  "in_steady_state [1000, 1000, 1000, 1000, 1000] 5 = Inr True"
  by (simp_all add: in_steady_state5 np_mean_def ols_slope_def upt_1_6)

lemma steady_stable5: "all_stable (sim_tracked (\<lambda>s. (1000, 500)) a 5)"
  unfolding steady_tracked5
  by (simp only: all_stable_def tracked.simps constant_window_stable simp_thms)

lemma loop_kind_round_line: "loop_kind is_round_line"
  by (simp add: loop_kind_def quiet_def)

lemma steady_measure:
  assumes "loop_kind K"
  shows "yields K (iops_measure steady_env a c)
           (Some 5, sim_tracked (\<lambda>s. (1000, 500)) a 5)
           (filter K (map (round_line (sim_tracked (\<lambda>s. (1000, 500)) a 5)) [1 ..< Suc 5]
              @ (if all_stable (sim_tracked (\<lambda>s. (1000, 500)) a 5)
                 then [Logged Steady_Break] else [])))"
  unfolding steady_env_def
proof (rule sim_measure [OF assms])
  show "\<forall>i. 0 < i \<and> i < 5 \<longrightarrow> \<not> all_stable (sim_tracked (\<lambda>s. (1000, 500)) a i)"
    using too_short_not_stable [OF lengths_sim_tracked] by blast
  show "all_stable (sim_tracked (\<lambda>s. (1000, 500)) a 5) \<or> (5::nat) = 25"
    using steady_stable5 by simp
qed simp_all

text \<open>The paths of the sample session.\<close>

lemma rstrip_snoc: "\<not> is_space c \<Longrightarrow> rstrip (s @ [c]) = s @ [c]"
  by (simp add: rstrip_def)

lemma join2_plain:
  assumes "b \<noteq> []" and "hd b \<noteq> CHR ''/''" and "p \<noteq> []" and "last p \<noteq> CHR ''/''"
  shows "join2 p b = p @ ''/'' @ b"
  using assms by (simp add: join2_def)

lemma digit_char_no_slash: "d < 10 \<Longrightarrow> digit_char d \<noteq> CHR ''/''"
proof -
  assume "d < 10"
  then have "d = 0 \<or> d = 1 \<or> d = 2 \<or> d = 3 \<or> d = 4 \<or> d = 5 \<or> d = 6 \<or> d = 7
             \<or> d = 8 \<or> d = 9"
    by arith
  then show ?thesis
    by (auto simp: digit_char_def)
qed

lemma base_digits_10_last:
  "base_digits 10 n \<noteq> [] \<and> last (base_digits 10 n) \<noteq> CHR ''/''"
proof (cases "n < 10")
  case True
  then show ?thesis
    by (subst (1 2) base_digits.simps) (simp add: digit_char_no_slash)
next
  case False
  then show ?thesis
    by (subst (1 2) base_digits.simps) (simp add: digit_char_no_slash)
qed

lemma fmt_d_nat_last: "fmt_d (int n) \<noteq> [] \<and> last (fmt_d (int n)) \<noteq> CHR ''/''"
  using base_digits_10_last [of n] by (simp add: fmt_d_def)

lemma sim_text_sample:
  assumes "bs \<noteq> []" and "last bs \<noteq> CHR ''/''"
  shows "sim_text sample_args n rr bs
           = ''out/round-'' @ fmt_d (int n) @ ''/rr-'' @ fmt_d (int rr) @ ''/bs-'' @ bs
               @ ''/wdpc/output.json''"
proof -
  have j1: "join2 ''out'' (''round-'' @ fmt_d (int n)) = ''out/round-'' @ fmt_d (int n)"
    by (simp add: join2_plain)
  have j2: "join2 (''out/round-'' @ fmt_d (int n)) (''rr-'' @ fmt_d (int rr))
              = ''out/round-'' @ fmt_d (int n) @ ''/rr-'' @ fmt_d (int rr)"
    using fmt_d_nat_last [of n] by (simp add: join2_plain)
  have j3: "join2 (''out/round-'' @ fmt_d (int n) @ ''/rr-'' @ fmt_d (int rr)) (''bs-'' @ bs)
              = ''out/round-'' @ fmt_d (int n) @ ''/rr-'' @ fmt_d (int rr) @ ''/bs-'' @ bs"
    using fmt_d_nat_last [of rr] by (simp add: join2_plain)
  have j4: "join2 (''out/round-'' @ fmt_d (int n) @ ''/rr-'' @ fmt_d (int rr) @ ''/bs-'' @ bs) ''wdpc''
              = ''out/round-'' @ fmt_d (int n) @ ''/rr-'' @ fmt_d (int rr) @ ''/bs-'' @ bs @ ''/wdpc''"
    using assms by (simp add: join2_plain)
  have j5: "join2 (''out/round-'' @ fmt_d (int n) @ ''/rr-'' @ fmt_d (int rr) @ ''/bs-'' @ bs @ ''/wdpc'')
              ''output.json''
              = ''out/round-'' @ fmt_d (int n) @ ''/rr-'' @ fmt_d (int rr) @ ''/bs-'' @ bs
                  @ ''/wdpc/output.json''"
    by (simp add: join2_plain)
  have r: "rstrip ((''out/round-'' @ fmt_d (int n) @ ''/rr-'' @ fmt_d (int rr) @ ''/bs-'' @ bs
                  @ ''/wdpc/output.jso'') @ [CHR ''n''])
           = (''out/round-'' @ fmt_d (int n) @ ''/rr-'' @ fmt_d (int rr) @ ''/bs-'' @ bs
                  @ ''/wdpc/output.jso'') @ [CHR ''n'']"
    by (rule rstrip_snoc) (simp add: is_space_def)
  have "sim_text sample_args n rr bs
          = rstrip (''out/round-'' @ fmt_d (int n) @ ''/rr-'' @ fmt_d (int rr) @ ''/bs-'' @ bs
                  @ ''/wdpc/output.json'')"
    by (simp only: sim_text_def cell_dir_def path_join_def sample_args_def args.simps fold.simps
        o_apply id_apply j1 j2 j3 j4 j5)
  also have "\<dots> = ''out/round-'' @ fmt_d (int n) @ ''/rr-'' @ fmt_d (int rr) @ ''/bs-'' @ bs
                  @ ''/wdpc/output.json''"
    using r by simp
  finally show ?thesis .
qed

text \<open>The spikes: the lists after 25 rounds.\<close>

lemma upt_1_26:
  "[1 ..< Suc 25] = [1, 2, 3, 4, 5, 6, 7, 8, 9, 10, 11, 12, 13, 14, 15, 16, 17, 18, 19, 20,
                     21, 22, 23, 24, 25]"
  by (simp add: upt_conv_Cons)

lemma spike_paths:
  "map (\<lambda>n. sim_text sample_args n 0 ''4k'') [5, 10, 15, 20, 25]
     = [''out/round-5/rr-0/bs-4k/wdpc/output.json'',
        ''out/round-10/rr-0/bs-4k/wdpc/output.json'',
        ''out/round-15/rr-0/bs-4k/wdpc/output.json'',
        ''out/round-20/rr-0/bs-4k/wdpc/output.json'',
        ''out/round-25/rr-0/bs-4k/wdpc/output.json'']"
  by (simp add: sim_text_sample fmt_d_def digit_char_def)

lemma spike_value:
  assumes "bs \<noteq> []" and "last bs \<noteq> CHR ''/''" and "set ns \<subseteq> {5, 10, 15, 20, 25}"
  shows "sim_value (spike_counters ns) sample_args i rr bs
     = (if ''out/round-'' @ fmt_d (int i) @ ''/rr-'' @ fmt_d (int rr) @ ''/bs-'' @ bs
              @ ''/wdpc/output.json''
            \<in> set (map (\<lambda>n. ''out/round-'' @ fmt_d (int n) @ ''/rr-0/bs-4k/wdpc/output.json'') ns)
        then 200 else 100)"
proof -
  have "map (\<lambda>n. sim_text sample_args n 0 ''4k'') ns
          = map (\<lambda>n. ''out/round-'' @ fmt_d (int n) @ ''/rr-0/bs-4k/wdpc/output.json'') ns"
    by (simp add: sim_text_sample fmt_d_def digit_char_def)
  then show ?thesis
    unfolding sim_value_def spike_counters_def sim_text_sample [OF assms(1,2)]
    by (simp add: blend_def algebra_simps)
qed

lemma fmt_d_cells: "fmt_d 0 = ''0''" "fmt_d 65 = ''65''" "fmt_d 100 = ''100''"
  "fmt_d 5 = ''5''" "fmt_d 10 = ''10''" "fmt_d 15 = ''15''" "fmt_d 20 = ''20''" "fmt_d 25 = ''25''"
  by (simp_all add: fmt_d_def digit_char_def)

lemma spike_value_rr0:
  "sim_value (spike_counters [5, 10, 15, 20]) sample_args i 0 ''4k''
     = (if fmt_d (int i) = ''5'' \<or> fmt_d (int i) = ''10'' \<or> fmt_d (int i) = ''15''
           \<or> fmt_d (int i) = ''20'' then 200 else 100)"
  "sim_value (spike_counters [5, 10, 15, 20, 25]) sample_args i 0 ''4k''
     = (if fmt_d (int i) = ''5'' \<or> fmt_d (int i) = ''10'' \<or> fmt_d (int i) = ''15''
           \<or> fmt_d (int i) = ''20'' \<or> fmt_d (int i) = ''25'' then 200 else 100)"
  using spike_value [of "''4k''" "[5, 10, 15, 20]" i 0]
    spike_value [of "''4k''" "[5, 10, 15, 20, 25]" i 0]
  by (simp_all add: fmt_d_cells)

lemma spike_value_rr65:
  assumes "set ns \<subseteq> {5, 10, 15, 20, 25}"
  shows "sim_value (spike_counters ns) sample_args i 65 ''64k'' = 100"
  using spike_value [of "''64k''" ns i 65] assms by (auto simp: fmt_d_cells)

lemma spike_value_rr100:
  assumes "set ns \<subseteq> {5, 10, 15, 20, 25}"
  shows "sim_value (spike_counters ns) sample_args i 100 ''1024k'' = 100"
  using spike_value [of "''1024k''" ns i 100] assms by (auto simp: fmt_d_cells)

lemma late_rr0:
  "map (\<lambda>i. sim_value (spike_counters [5, 10, 15, 20]) sample_args i 0 ''4k'') [1 ..< Suc 25]
     = [100, 100, 100, 100, 200, 100, 100, 100, 100, 200, 100, 100, 100, 100,
        200, 100, 100, 100, 100, 200, 100, 100, 100, 100, 100]"
  unfolding spike_value_rr0 upt_1_26
  by (simp add: fmt_d_def digit_char_def)

lemma restless_rr0:
  "map (\<lambda>i. sim_value (spike_counters [5, 10, 15, 20, 25]) sample_args i 0 ''4k'') [1 ..< Suc 25]
     = [100, 100, 100, 100, 200, 100, 100, 100, 100, 200, 100, 100, 100, 100,
        200, 100, 100, 100, 100, 200, 100, 100, 100, 100, 200]"
  unfolding spike_value_rr0 upt_1_26
  by (simp add: fmt_d_def digit_char_def)

lemma spike_flat:
  "map (\<lambda>i. 100 :: real) [1 ..< Suc 25]
     = [100, 100, 100, 100, 100, 100, 100, 100, 100, 100, 100, 100, 100, 100,
        100, 100, 100, 100, 100, 100, 100, 100, 100, 100, 100]"
  unfolding upt_1_26 by simp

lemma late_tracked25:
  "sim_tracked (spike_counters [5, 10, 15, 20]) sample_args 25
     = \<lparr>rr0_4k_iops =
          [100, 100, 100, 100, 200, 100, 100, 100, 100, 200, 100, 100, 100, 100,
           200, 100, 100, 100, 100, 200, 100, 100, 100, 100, 100],
        rr65_64k_iops =
          [100, 100, 100, 100, 100, 100, 100, 100, 100, 100, 100, 100, 100, 100,
           100, 100, 100, 100, 100, 100, 100, 100, 100, 100, 100],
        rr100_1024k_iops =
          [100, 100, 100, 100, 100, 100, 100, 100, 100, 100, 100, 100, 100, 100,
           100, 100, 100, 100, 100, 100, 100, 100, 100, 100, 100]\<rparr>"
  unfolding sim_tracked_def late_rr0
  by (simp only: spike_value_rr65 spike_value_rr100 spike_flat set_simps subset_insertI2
      subset_refl insert_subset insertI1 insertI2 empty_subsetI simp_thms list.set)

lemma restless_tracked25:
  "sim_tracked (spike_counters [5, 10, 15, 20, 25]) sample_args 25
     = \<lparr>rr0_4k_iops =
          [100, 100, 100, 100, 200, 100, 100, 100, 100, 200, 100, 100, 100, 100,
           200, 100, 100, 100, 100, 200, 100, 100, 100, 100, 200],
        rr65_64k_iops =
          [100, 100, 100, 100, 100, 100, 100, 100, 100, 100, 100, 100, 100, 100,
           100, 100, 100, 100, 100, 100, 100, 100, 100, 100, 100],
        rr100_1024k_iops =
          [100, 100, 100, 100, 100, 100, 100, 100, 100, 100, 100, 100, 100, 100,
           100, 100, 100, 100, 100, 100, 100, 100, 100, 100, 100]\<rparr>"
  unfolding sim_tracked_def restless_rr0
  by (simp only: spike_value_rr65 spike_value_rr100 spike_flat set_simps subset_insertI2
      subset_refl insert_subset insertI1 insertI2 empty_subsetI simp_thms list.set)

lemma late_unstable_window:
  "\<forall>i \<in> set [5 ..< 25]. in_steady_state
      (take i [100, 100, 100, 100, 200, 100, 100, 100, 100, 200, 100, 100, 100, 100,
               200, 100, 100, 100, 100, 200, 100, 100, 100, 100, 100]) 5 = Inr False"
  by (simp add: upt_conv_Cons in_steady_state5 np_mean_def)

lemma restless_unstable_window:
  "\<forall>i \<in> set [5 ..< 26]. in_steady_state
      (take i [100, 100, 100, 100, 200, 100, 100, 100, 100, 200, 100, 100, 100, 100,
               200, 100, 100, 100, 100, 200, 100, 100, 100, 100, 200]) 5 = Inr False"
  by (simp add: upt_conv_Cons in_steady_state5 np_mean_def)

lemma late_unstable:
  assumes "0 < i" and "i < 25"
  shows "\<not> all_stable (sim_tracked (spike_counters [5, 10, 15, 20]) sample_args i)"
proof (cases "i < 5")
  case True
  with lengths_sim_tracked show ?thesis
    by (rule too_short_not_stable)
next
  case False
  then have "5 \<le> i \<and> i < 25"
    using assms(2) by simp
  then have "i \<in> set [5 ..< 25]"
    by (simp only: set_upt atLeastLessThan_iff)
  then have "in_steady_state
      (take i [100, 100, 100, 100, 200, 100, 100, 100, 100, 200, 100, 100, 100, 100,
               200, 100, 100, 100, 100, 200, 100, 100, 100, 100, 100]) 5 = Inr False"
    using late_unstable_window by blast
  moreover have "sim_tracked (spike_counters [5, 10, 15, 20]) sample_args i
                   = first_rounds i (sim_tracked (spike_counters [5, 10, 15, 20]) sample_args 25)"
    using assms(2) by (simp add: first_rounds_sim_tracked)
  ultimately show ?thesis
    unfolding late_tracked25
    by (intro unstable_first) (simp add: first_rounds_def)
qed

lemma restless_unstable:
  assumes "0 < i" and "i < 26"
  shows "\<not> all_stable (sim_tracked (spike_counters [5, 10, 15, 20, 25]) sample_args i)"
proof (cases "i < 5")
  case True
  with lengths_sim_tracked show ?thesis
    by (rule too_short_not_stable)
next
  case False
  then have "5 \<le> i \<and> i < 26"
    using assms(2) by simp
  then have "i \<in> set [5 ..< 26]"
    by (simp only: set_upt atLeastLessThan_iff)
  then have "in_steady_state
      (take i [100, 100, 100, 100, 200, 100, 100, 100, 100, 200, 100, 100, 100, 100,
               200, 100, 100, 100, 100, 200, 100, 100, 100, 100, 200]) 5 = Inr False"
    using restless_unstable_window by blast
  moreover have "sim_tracked (spike_counters [5, 10, 15, 20, 25]) sample_args i
                   = first_rounds i (sim_tracked (spike_counters [5, 10, 15, 20, 25]) sample_args 25)"
    using assms(2) by (simp add: first_rounds_sim_tracked)
  ultimately show ?thesis
    unfolding restless_tracked25
    by (intro unstable_first) (simp add: first_rounds_def)
qed

lemma late_stable25: "all_stable (sim_tracked (spike_counters [5, 10, 15, 20]) sample_args 25)"
  unfolding late_tracked25
  by (simp add: all_stable_def in_steady_state5 np_mean_def ols_slope_def upt_1_6)

lemma late_measure:
  assumes "loop_kind K"
  shows "yields K (iops_measure late_env sample_args c)
           (Some 25, sim_tracked (spike_counters [5, 10, 15, 20]) sample_args 25)
           (filter K (map (round_line (sim_tracked (spike_counters [5, 10, 15, 20]) sample_args 25))
                        [1 ..< Suc 25]
              @ [Logged Steady_Break]))"
proof -
  have "yields K (iops_measure late_env sample_args c)
           (Some 25, sim_tracked (spike_counters [5, 10, 15, 20]) sample_args 25)
           (filter K (map (round_line (sim_tracked (spike_counters [5, 10, 15, 20]) sample_args 25))
                        [1 ..< Suc 25]
              @ (if all_stable (sim_tracked (spike_counters [5, 10, 15, 20]) sample_args 25)
                 then [Logged Steady_Break] else [])))"
    unfolding late_env_def
    by (rule sim_measure [OF assms]) (simp_all add: late_unstable)
  then show ?thesis
    using late_stable25 by simp
qed

lemma restless_measure:
  assumes "loop_kind K"
  shows "yields K (iops_measure restless_env sample_args c)
           (Some 25, sim_tracked (spike_counters [5, 10, 15, 20, 25]) sample_args 25)
           (filter K (map (round_line (sim_tracked (spike_counters [5, 10, 15, 20, 25]) sample_args 25))
                        [1 ..< Suc 25]))"
proof -
  have "yields K (iops_measure restless_env sample_args c)
           (Some 25, sim_tracked (spike_counters [5, 10, 15, 20, 25]) sample_args 25)
           (filter K (map (round_line (sim_tracked (spike_counters [5, 10, 15, 20, 25]) sample_args 25))
                        [1 ..< Suc 25]
              @ (if all_stable (sim_tracked (spike_counters [5, 10, 15, 20, 25]) sample_args 25)
                 then [Logged Steady_Break] else [])))"
    unfolding restless_env_def
    by (rule sim_measure [OF assms]) (simp_all add: restless_unstable)
  then show ?thesis
    using restless_unstable [of 25] by simp
qed

text \<open>The measurement phase with its report.\<close>

lemma loop_kind_report: "loop_kind is_report"
  by (simp add: loop_kind_def quiet_def)

lemma no_report_round_lines: "filter is_report (map (round_line s) ns) = []"
  by (induction ns) (simp_all add: round_line_def)

lemma yields_session:
  assumes "yields K (iops_measure E a c) (Some n, t) l"
  shows "yields K (iops_session E a c) (Some n, t)
           (l @ (if n = 25 then filter K [Logged Not_Reached] else []))"
proof -
  have "yields K (then_io (iops_report (Some n)) (ret (Some n, t))) (Some n, t)
          (if n = 25 then filter K [Logged Not_Reached] else [])"
    by (simp add: yields_def then_io_def bind_def iops_report_def info_def ret_def)
  then show ?thesis
    unfolding iops_session_def
    by (intro yields_bind [OF assms]) simp_all
qed

section \<open>The claims on the measurement loop\<close>

lemma iops_measure_run:
  assumes "iops_measure E a c tr = (res, evs)"
  shows "\<exists>k s. loop_post E a c 0 26 None no_tracked res evs k s"
proof -
  have l: "lengths no_tracked 0"
    by (simp add: lengths_def no_tracked_def)
  have u: "[1 ..< 26] = [Suc 0 ..< 26]" by simp
  show ?thesis
    using assms unfolding iops_measure_def u
    by (rule iops_loop_run) (simp_all add: l)
qed

text \<open>
  C4. The loop runs the rounds 1, 2, \<dots> and at most 25 of them. When it returns, \<open>n\<close>
  rounds have been completed (one journal line each), the three lists hold \<open>n\<close> values,
  after every earlier round \<open>m < n\<close> not all three lists were stable (each judged with
  the window size 5), and either all three lists are stable after round \<open>n\<close>, where
  the loop breaks, or \<open>n = 25\<close>. The loop raises nothing of its own: an error that
  leaves it is the error of a round.
\<close>

theorem measurement_loop:
  assumes "iops_measure E a c tr = (res, evs)"
  shows "case res of
           Inr (rn, t) \<Rightarrow>
             \<exists>n. rn = Some n \<and> 1 \<le> n \<and> n \<le> 25 \<and> lengths t n
               \<and> length (filter is_round_line evs) = n
               \<and> (\<forall>m. 1 \<le> m \<and> m < n \<longrightarrow> \<not> all_stable (first_rounds m t))
               \<and> (all_stable t \<or> n = 25)
               \<and> (Logged Steady_Break \<in> set evs \<longleftrightarrow> all_stable t)
               \<and> all_steady t = Inr (all_stable t)
         | Inl e \<Rightarrow>
             \<exists>n t' tr' evs'. 1 \<le> n \<and> n \<le> 25 \<and> iops_round E a c n t' tr' = (Inl e, evs')"
proof -
  from assms obtain k s where p: "loop_post E a c 0 26 None no_tracked res evs k s"
    using iops_measure_run by blast
  show ?thesis
  proof (cases res)
    case (Inl e)
    from p obtain n t' tr' evs' where "0 < n" and "n < 26"
      and "iops_round E a c n t' tr' = (Inl e, evs')"
      unfolding loop_post_def Inl by auto
    then have "1 \<le> n \<and> n \<le> 25 \<and> iops_round E a c n t' tr' = (Inl e, evs')"
      by simp
    then show ?thesis
      unfolding Inl by auto
  next
    case (Inr q)
    obtain rn t where q: "q = (rn, t)" by (cases q)
    from p have k: "k < 26" and len: "lengths s k"
      and lines: "filter is_round_line evs = map (round_line s) [Suc 0 ..< Suc k]"
      and un: "\<forall>i. 0 < i \<and> i < k \<longrightarrow> \<not> all_stable (first_rounds i s)"
      and t: "t = s" and rn: "rn = (if k = 0 then None else Some k)"
      and sb: "Logged Steady_Break \<in> set evs \<longleftrightarrow> k \<noteq> 0 \<and> all_stable s"
      and k0: "k = 0 \<longrightarrow> Suc 0 = 26"
      and ex: "k \<noteq> 0 \<and> \<not> all_stable s \<longrightarrow> Suc k = 26"
      unfolding loop_post_def Inr q by simp_all
    from k0 have kp: "k \<noteq> 0" by auto
    have "rn = Some k \<and> 1 \<le> k \<and> k \<le> 25 \<and> lengths t k
               \<and> length (filter is_round_line evs) = k
               \<and> (\<forall>m. 1 \<le> m \<and> m < k \<longrightarrow> \<not> all_stable (first_rounds m t))
               \<and> (all_stable t \<or> k = 25)
               \<and> (Logged Steady_Break \<in> set evs \<longleftrightarrow> all_stable t)
               \<and> all_steady t = Inr (all_stable t)"
      using k len un rn sb ex kp unfolding t lines
      by (auto simp: all_steady_eq)
    then show ?thesis
      unfolding Inr q by auto
  qed
qed

text \<open>
  C5. In every run of the loop, completed or aborted, the journal lines written after the
  rounds are those of the rounds \<open>1, \<dots>, k\<close>, and the line after round \<open>n\<close> shows the
  first \<open>n\<close> values of the final lists: after round \<open>n\<close> each list has exactly \<open>n\<close>
  values, and a later round only appends to it.
\<close>

theorem tracked_series_lengths:
  assumes "iops_measure E a c tr = (res, evs)"
  shows "\<exists>k s. k \<le> 25 \<and> lengths s k
           \<and> filter is_round_line evs = map (round_line s) [1 ..< Suc k]
           \<and> (\<forall>rn t. res = Inr (rn, t) \<longrightarrow> t = s \<and> rn = Some k)"
proof -
  from assms obtain k s where p: "loop_post E a c 0 26 None no_tracked res evs k s"
    using iops_measure_run by blast
  then have k: "k < 26" and len: "lengths s k"
    and lines: "filter is_round_line evs = map (round_line s) [Suc 0 ..< Suc k]"
    unfolding loop_post_def by simp_all
  have "\<forall>rn t. res = Inr (rn, t) \<longrightarrow> t = s \<and> rn = Some k"
    using p unfolding loop_post_def by auto
  then have "k \<le> 25 \<and> lengths s k
           \<and> filter is_round_line evs = map (round_line s) [1 ..< Suc k]
           \<and> (\<forall>rn t. res = Inr (rn, t) \<longrightarrow> t = s \<and> rn = Some k)"
    using k len lines by simp
  then show ?thesis by blast
qed

text \<open>
  C6. A completed round has rendered one job and run fio once for each of the 7 * 8 = 56
  cells, in the order of the matrix: the mix ratios 100, 95, 65, 50, 35, 5, 0 outermost,
  the block sizes 1024k, 128k, 64k, 32k, 16k, 8k, 4k, 512b innermost; the cells are
  distinct and the matrix is the same in every round.
\<close>

theorem round_cells:
  assumes "iops_round E a c n t tr = (Inr t', evs)"
  shows "filter is_cell_step evs = concat (map (cell_steps a c n) workload_matrix)
         \<and> workload_matrix = List.product [100, 95, 65, 50, 35, 5, 0]
             [''1024k'', ''128k'', ''64k'', ''32k'', ''16k'', ''8k'', ''4k'', ''512b'']
         \<and> length workload_matrix = 7 * 8 \<and> distinct workload_matrix"
proof -
  have m: "workload_matrix = List.product [100, 95, 65, 50, 35, 5, 0]
             [''1024k'', ''128k'', ''64k'', ''32k'', ''16k'', ''8k'', ''4k'', ''512b'']"
    by (simp add: workload_matrix_def mix_ratios_def block_sizes_def)
  have d: "distinct workload_matrix"
    unfolding m by (rule distinct_product) simp_all
  have l: "length workload_matrix = 7 * 8"
    unfolding m by simp
  show ?thesis
    using iops_round_Inr(2) [OF assms] m d l by simp
qed


lemma failed_is_last:
  assumes "fail_fast (res, evs)" and "i < length evs" and "failed (evs ! i)"
  shows "Suc i = length evs \<and> isl res"
proof -
  have b: "list_all (\<lambda>e. \<not> failed e) (butlast evs)"
    and l: "evs = [] \<or> \<not> failed (last evs) \<or> isl res"
    using assms(1) by simp_all
  have "\<not> i < length (butlast evs)"
  proof
    assume a: "i < length (butlast evs)"
    then have "butlast evs ! i \<in> set (butlast evs)"
      by (rule nth_mem)
    moreover have "butlast evs ! i = evs ! i"
      using a by (rule nth_butlast)
    ultimately show False
      using b assms(3) by (auto simp: list_all_iff)
  qed
  then have i: "Suc i = length evs"
    using assms(2) by simp
  have ne: "evs \<noteq> []"
    using assms(2) by auto
  have "last evs = evs ! (length evs - 1)"
    using ne by (rule last_conv_nth)
  also have "length evs - 1 = i"
    using i by simp
  finally have "last evs = evs ! i" .
  then show ?thesis
    using l i ne assms(3) by auto
qed

text \<open>
  C8. In every session each call is recorded with the answer that the collaborator gave
  at that moment: it is recorded as failed exactly when the collaborator lets it fail (a
  subprocess, a file or directory operation, a decoding, a parse, a match or a rendering
  that raises). A failed call is the last event of the trace, and the session ends with
  an error: nothing is retried, skipped or run after it.
\<close>

theorem collaborator_failure_is_fatal:
  assumes "iops E a tr = (res, evs)" and "i < length evs" and "evs ! i = Called c ok"
  shows "ok = answers E (tr @ take i evs) c
         \<and> (\<not> ok \<longrightarrow> Suc i = length evs \<and> isl res)"
proof -
  have "faithful E tr (snd (iops E a tr))"
    using honest_iops unfolding honest_def ..
  then have "faithful E tr evs"
    unfolding assms(1) by simp
  then have ans: "ok = answers E (tr @ take i evs) c"
    using assms(2,3) by (rule faithful_nth)
  have "fail_fast (iops E a tr)"
    using ff_iops unfolding ff_def ..
  then have ff: "fail_fast (res, evs)"
    unfolding assms(1) .
  have "Suc i = length evs \<and> isl res" if "\<not> ok"
  proof -
    have "failed (evs ! i)"
      using that assms(3) by simp
    with ff assms(2) show ?thesis
      by (rule failed_is_last)
  qed
  with ans show ?thesis by simp
qed

theorem measurement_loop_witness:
  "fst (iops_measure steady_env sample_args sample_session [])
     = Inr (Some 5, \<lparr>rr0_4k_iops = [500, 500, 500, 500, 500],
                     rr65_64k_iops = [825, 825, 825, 825, 825],
                     rr100_1024k_iops = [1000, 1000, 1000, 1000, 1000]\<rparr>)
   \<and> length (filter is_round_line (snd (iops_measure steady_env sample_args sample_session []))) = 5
   \<and> \<not> all_stable (first_rounds 4 \<lparr>rr0_4k_iops = [500, 500, 500, 500, 500],
                     rr65_64k_iops = [825, 825, 825, 825, 825],
                     rr100_1024k_iops = [1000, 1000, 1000, 1000, 1000]\<rparr>)
   \<and> Logged Steady_Break \<in> set (snd (iops_measure steady_env sample_args sample_session []))
   \<and> fst (iops_measure restless_env sample_args sample_session [])
     = Inr (Some 25, sim_tracked (spike_counters [5, 10, 15, 20, 25]) sample_args 25)
   \<and> length (filter is_round_line (snd (iops_measure restless_env sample_args sample_session []))) = 25
   \<and> Logged Steady_Break \<notin> set (snd (iops_measure restless_env sample_args sample_session []))"
proof -
  obtain evs where run: "iops_measure steady_env sample_args sample_session []
      = (Inr (Some 5, sim_tracked (\<lambda>s. (1000, 500)) sample_args 5), evs)"
    using steady_measure [OF loop_kind_round_line] by (rule yieldsD)
  note th = measurement_loop [OF run]
  from th have a: "length (filter is_round_line evs) = 5"
    and b: "\<forall>m. 1 \<le> m \<and> m < 5 \<longrightarrow> \<not> all_stable (first_rounds m (sim_tracked (\<lambda>s. (1000, 500)) sample_args 5))"
    and c: "Logged Steady_Break \<in> set evs \<longleftrightarrow> all_stable (sim_tracked (\<lambda>s. (1000, 500)) sample_args 5)"
    by simp_all
  obtain evs' where run': "iops_measure restless_env sample_args sample_session []
      = (Inr (Some 25, sim_tracked (spike_counters [5, 10, 15, 20, 25]) sample_args 25), evs')"
    using restless_measure [OF loop_kind_round_line] by (rule yieldsD)
  note th' = measurement_loop [OF run']
  from th' have a': "length (filter is_round_line evs') = 25"
    and c': "Logged Steady_Break \<in> set evs'
               \<longleftrightarrow> all_stable (sim_tracked (spike_counters [5, 10, 15, 20, 25]) sample_args 25)"
    by simp_all
  have d': "Logged Steady_Break \<notin> set evs'"
    using c' restless_unstable [of 25] by simp
  show ?thesis
    using a b c a' d' steady_stable5 [of sample_args]
    by (simp add: run run' steady_tracked5)
qed

theorem tracked_series_lengths_witness:
  "filter is_round_line (snd (iops_measure steady_env sample_args sample_session []))
     = [Logged (Round_Finished 1 [500] [825] [1000]),
        Logged (Round_Finished 2 [500, 500] [825, 825] [1000, 1000]),
        Logged (Round_Finished 3 [500, 500, 500] [825, 825, 825] [1000, 1000, 1000]),
        Logged (Round_Finished 4 [500, 500, 500, 500] [825, 825, 825, 825]
                  [1000, 1000, 1000, 1000]),
        Logged (Round_Finished 5 [500, 500, 500, 500, 500] [825, 825, 825, 825, 825]
                  [1000, 1000, 1000, 1000, 1000])]"
proof -
  obtain evs where run: "iops_measure steady_env sample_args sample_session []
      = (Inr (Some 5, sim_tracked (\<lambda>s. (1000, 500)) sample_args 5), evs)"
    using steady_measure [OF loop_kind_round_line] by (rule yieldsD)
  from tracked_series_lengths [OF run]
  obtain k s where "lengths s k"
    and l: "filter is_round_line evs = map (round_line s) [1 ..< Suc k]"
    and "\<forall>rn t. Inr (Some 5, sim_tracked (\<lambda>s. (1000, 500)) sample_args 5) = Inr (rn, t)
            \<longrightarrow> t = s \<and> rn = Some k"
    by blast
  then have s: "s = sim_tracked (\<lambda>s. (1000, 500)) sample_args 5" and k: "k = 5"
    by simp_all
  show ?thesis
    unfolding run snd_conv l s k steady_tracked5
    by (simp add: round_line_def upt_conv_Cons)
qed

theorem round_cells_witness:
  "fst (iops_round steady_env sample_args sample_session 1 no_tracked [])
     = Inr \<lparr>rr0_4k_iops = [500], rr65_64k_iops = [825], rr100_1024k_iops = [1000]\<rparr>
   \<and> filter is_cell_step (snd (iops_round steady_env sample_args sample_session 1 no_tracked []))
     = concat (map (cell_steps sample_args sample_session 1) workload_matrix)
   \<and> take 2 workload_matrix = [(100, ''1024k''), (100, ''128k'')]
   \<and> length (filter is_cell_step
        (snd (iops_round steady_env sample_args sample_session 1 no_tracked []))) = 2 * 56"
proof -
  have t0: "no_tracked = sim_tracked (\<lambda>s. (1000, 500)) sample_args 0"
    by (simp add: no_tracked_def sim_tracked_def)
  have t1: "sim_tracked (\<lambda>s. (1000, 500)) sample_args (Suc 0)
              = \<lparr>rr0_4k_iops = [500], rr65_64k_iops = [825], rr100_1024k_iops = [1000]\<rparr>"
    by (simp add: sim_tracked_def sim_value_def blend_def)
  have "yields is_round_line (iops_round steady_env sample_args sample_session (Suc 0)
          (sim_tracked (\<lambda>s. (1000, 500)) sample_args 0))
          (sim_tracked (\<lambda>s. (1000, 500)) sample_args (Suc 0)) []"
    unfolding steady_env_def
    by (rule sim_round_tracked [OF loop_kind_round_line]) simp
  then obtain evs where "iops_round steady_env sample_args sample_session (Suc 0)
          (sim_tracked (\<lambda>s. (1000, 500)) sample_args 0) []
      = (Inr (sim_tracked (\<lambda>s. (1000, 500)) sample_args (Suc 0)), evs)"
    by (rule yieldsD)
  then have run: "iops_round steady_env sample_args sample_session 1 no_tracked []
      = (Inr \<lparr>rr0_4k_iops = [500], rr65_64k_iops = [825], rr100_1024k_iops = [1000]\<rparr>, evs)"
    unfolding t0 [symmetric] t1 by simp
  note th = round_cells [OF run]
  from th have a: "filter is_cell_step evs
                     = concat (map (cell_steps sample_args sample_session 1) workload_matrix)"
    and b: "workload_matrix = List.product [100, 95, 65, 50, 35, 5, 0]
             [''1024k'', ''128k'', ''64k'', ''32k'', ''16k'', ''8k'', ''4k'', ''512b'']"
    and c: "length workload_matrix = 7 * 8"
    by simp_all
  have "length (concat (map (cell_steps sample_args sample_session 1) cells)) = 2 * length cells"
    for cells
    by (induction cells) (simp_all add: cell_steps_def)
  then have d: "length (concat (map (cell_steps sample_args sample_session 1) workload_matrix))
             = 2 * length workload_matrix" .
  have e: "take 2 workload_matrix = [(100, ''1024k''), (100, ''128k'')]"
    unfolding b by simp
  show ?thesis
    unfolding run fst_conv snd_conv using a c d e by simp
qed


lemma save_run_sim:
  assumes "subprocess_run E = (\<lambda>tr cmd. Some \<lparr>stdout = [], stderr = []\<rparr>)"
    and "path_exists E = (\<lambda>tr p. True)"
  shows "save_run E a sub (run E cmd) tr
           = (Inr (), [Called (Subprocess cmd) True,
                       Called (Path_Exists (path_join (output a) sub)) True])"
  using assms
  by (simp add: save_run_def save_stdout_stderr_def create_dir_def run_def ask_def
      bind_def ret_def)

theorem collaborator_failure_is_fatal_witness:
  "snd (iops broken_env sample_args []) ! 2
     = Called (Subprocess [''/usr/bin/sudo'', ''/sbin/lspci'', ''-vv'']) False
   \<and> \<not> answers broken_env (take 2 (snd (iops broken_env sample_args [])))
         (Subprocess [''/usr/bin/sudo'', ''/sbin/lspci'', ''-vv''])
   \<and> length (snd (iops broken_env sample_args [])) = 3
   \<and> fst (iops broken_env sample_args []) = Inl (Sys_Exit 1)
   \<and> snd (iops unreadable_env sample_args []) ! 8
     = Called (Read_File ''/sys/module/nvme/version'') False
   \<and> \<not> answers unreadable_env (take 8 (snd (iops unreadable_env sample_args [])))
         (Read_File ''/sys/module/nvme/version'')
   \<and> length (snd (iops unreadable_env sample_args [])) = 9
   \<and> fst (iops unreadable_env sample_args []) = Inl (Sys_Exit 1)"
proof -
  have lshw: "save_run broken_env sample_args [''platform/lshw''] (run_lshw broken_env) []
             = (Inr (),
                [Called (Subprocess [''/usr/bin/sudo'', ''/usr/sbin/lshw'', ''-json'', ''-quiet'',
                   ''-sanitize'']) True,
                 Called (Path_Exists (path_join (output sample_args) [''platform/lshw''])) True])"
    by (simp add: save_run_def save_stdout_stderr_def create_dir_def run_lshw_def run_def ask_def
        bind_def ret_def broken_env_def sim_env_def)
  have lspci: "run_lspci broken_env tr
             = (Inl (Sys_Exit 1), [Called (Subprocess [''/usr/bin/sudo'', ''/sbin/lspci'', ''-vv'']) False])"
    for tr
    by (simp add: run_lspci_def run_def ask_def broken_env_def sim_env_def)
  have run: "iops broken_env sample_args []
               = (Inl (Sys_Exit 1),
                [Called (Subprocess [''/usr/bin/sudo'', ''/usr/sbin/lshw'', ''-json'', ''-quiet'',
                   ''-sanitize'']) True,
                 Called (Path_Exists (path_join (output sample_args) [''platform/lshw''])) True,
                 Called (Subprocess [''/usr/bin/sudo'', ''/sbin/lspci'', ''-vv'']) False])"
    unfolding iops_def iops_conditions_def then_io_def
    by (simp add: bind_def lshw lspci save_run_def [of _ _ "[''platform/lspci'']"])
  have sub: "subprocess_run unreadable_env = (\<lambda>tr cmd. Some \<lparr>stdout = [], stderr = []\<rparr>)"
    and ex: "path_exists unreadable_env = (\<lambda>tr p. True)"
    by (simp_all add: unreadable_env_def sim_env_def)
  note sr = save_run_sim [OF sub ex]
  have rd: "get_nvme_module_info unreadable_env tr
              = (Inl (Sys_Exit 1), [Called (Read_File ''/sys/module/nvme/version'') False])" for tr
    by (simp add: get_nvme_module_info_def read_dir_files_def read_file_def bind_def ask_def
        unreadable_env_def sim_env_def path_join_def join2_def)
  have run': "iops unreadable_env sample_args []
               = (Inl (Sys_Exit 1),
                [Called (Subprocess [''/usr/bin/sudo'', ''/usr/sbin/lshw'', ''-json'', ''-quiet'',
                   ''-sanitize'']) True,
                 Called (Path_Exists (path_join (output sample_args) [''platform/lshw''])) True,
                 Called (Subprocess [''/usr/bin/sudo'', ''/sbin/lspci'', ''-vv'']) True,
                 Called (Path_Exists (path_join (output sample_args) [''platform/lspci''])) True,
                 Called (Subprocess (run_args_id_ctrl)) True,
                 Called (Path_Exists (path_join (output sample_args) [''device/nvme-id-ctrl''])) True,
                 Called (Subprocess (smart_log_cmd (dev sample_args))) True,
                 Called (Path_Exists (path_join (output sample_args) [''device/nvme-smart-log''])) True,
                 Called (Read_File ''/sys/module/nvme/version'') False])"
    if "run_args_id_ctrl = [''/usr/bin/sudo'', ''/usr/sbin/nvme'', ''id-ctrl'', ''--output-format=json'', dev sample_args]"
    for run_args_id_ctrl
    unfolding iops_def iops_conditions_def then_io_def run_lshw_def run_lspci_def
      run_nvme_id_ctrl_def run_nvme_smart_log_def that smart_log_cmd_def
    by (simp add: bind_def sr rd)
  note r2 = run' [OF refl]
  have a1: "\<not> answers broken_env tr (Subprocess [''/usr/bin/sudo'', ''/sbin/lspci'', ''-vv''])" for tr
    by (simp add: broken_env_def sim_env_def)
  have a2: "\<not> answers unreadable_env tr (Read_File p)" for tr p
    by (simp add: unreadable_env_def sim_env_def)
  show ?thesis
    using collaborator_failure_is_fatal [OF run, of 2 "Subprocess [''/usr/bin/sudo'', ''/sbin/lspci'', ''-vv'']" False]
      collaborator_failure_is_fatal [OF r2, of 8 "Read_File ''/sys/module/nvme/version''" False]
    unfolding run r2 fst_conv snd_conv
    by (simp add: a1 a2 del: answers.simps)
qed

text \<open>
  C3. A session that converges exactly at round 25: the three lists are all stable for
  the first time after round 25, the loop breaks with its journal line, and the test
  after the loop (\<open>round_num == 25\<close>) writes the line "steady state was not reached in
  25 rounds" as well. Both reports are made.
\<close>

theorem converged_at_round_25_reports_both:
  "fst (iops_session late_env sample_args sample_session [])
     = Inr (Some 25, sim_tracked (spike_counters [5, 10, 15, 20]) sample_args 25)
   \<and> all_stable (sim_tracked (spike_counters [5, 10, 15, 20]) sample_args 25)
   \<and> filter is_report (snd (iops_session late_env sample_args sample_session []))
     = [Logged Steady_Break, Logged Not_Reached]"
proof -
  have "yields is_report (iops_session late_env sample_args sample_session)
          (Some 25, sim_tracked (spike_counters [5, 10, 15, 20]) sample_args 25)
          (filter is_report (map (round_line (sim_tracked (spike_counters [5, 10, 15, 20]) sample_args 25))
                        [1 ..< Suc 25]
              @ [Logged Steady_Break])
           @ (if (25::nat) = 25 then filter is_report [Logged Not_Reached] else []))"
    by (rule yields_session [OF late_measure [OF loop_kind_report]])
  then have "yields is_report (iops_session late_env sample_args sample_session)
          (Some 25, sim_tracked (spike_counters [5, 10, 15, 20]) sample_args 25)
          [Logged Steady_Break, Logged Not_Reached]"
    by (simp only: filter_append no_report_round_lines) simp
  then show ?thesis
    using late_stable25 by (simp add: yields_def)
qed

section \<open>Workload-independent pre-conditioning\<close>

lemma yields_for_each:
  assumes "\<And>x. yields K (f x) (g x) []"
  shows "yields K (for_each f xs) (map g xs) []"
proof (induction xs)
  case Nil
  show ?case by (simp add: yields_ret)
next
  case (Cons x xs)
  have "yields K (bind (for_each f xs) (\<lambda>ys. ret (g x # ys))) (g x # map g xs) []"
    using Cons.IH yields_ret by (rule yields_bind) simp
  with assms [of x]
  have "yields K (bind (f x) (\<lambda>y. bind (for_each f xs) (\<lambda>ys. ret (y # ys)))) (g x # map g xs) []"
    by (rule yields_bind) simp
  then show ?case by simp
qed

lemma sim_decode:
  assumes "quiet K"
  shows "yields K (decode (sim_env ok dv f) b) b []"
  using assms
  by (simp add: yields_def decode_def ask_def sim_env_def quiet_def)

lemma sim_save_dict:
  assumes "quiet K"
  shows "yields K (save_dict (sim_env ok dv f) d j) () []"
  unfolding save_dict_def
  by (rule yields_bind sim_create_dir sim_save_file assms | simp)+

lemma sim_read_dir_files:
  assumes "quiet K"
  shows "\<exists>t. yields K (read_dir_files (sim_env ok dv f) d ns) t []"
proof -
  have "yields K (for_each (\<lambda>n. bind (read_file (sim_env ok dv f) d n) (\<lambda>text. ret (n, JStr text))) ns)
          (map (\<lambda>n. (n, JStr (rstrip (path_join d [n])))) ns) []"
    by (rule yields_for_each) (rule yields_bind sim_read_file yields_ret assms | simp)+
  then have "yields K (read_dir_files (sim_env ok dv f) d ns)
               (fold (\<lambda>kv d. AList.update (fst kv) (snd kv) d)
                  (map (\<lambda>n. (n, JStr (rstrip (path_join d [n])))) ns) []) []"
    unfolding read_dir_files_def by (rule yields_bind) (rule yields_ret | simp)+
  then show ?thesis ..
qed

lemma sim_read_dir:
  assumes "quiet K"
  shows "\<exists>t. yields K (read_dir (sim_env ok dv f) d) t []"
proof -
  have s: "yields K (ask (Scan_Dir d) (\<lambda>tr. scandir (sim_env ok dv f) tr d) (Sys_Exit 1)) [] []"
    using assms by (simp add: yields_def ask_def sim_env_def quiet_def)
  from sim_read_dir_files [OF assms] obtain t
    where "yields K (read_dir_files (sim_env ok dv f) d []) t []" ..
  with s have "yields K (read_dir (sim_env ok dv f) d) t []"
    unfolding read_dir_def by (rule yields_bind) simp
  then show ?thesis ..
qed

lemma sim_module_config:
  assumes "quiet K"
  shows "yields K (bind (get_nvme_module_info (sim_env ok dv f))
                     (\<lambda>d. save_dict (sim_env ok dv f) p (JObj d))) () []"
proof -
  from sim_read_dir_files [OF assms] obtain t
    where t: "yields K (read_dir_files (sim_env ok dv f) ''/sys/module/nvme''
                 [''version'', ''srcversion'']) t []" ..
  from sim_read_dir [OF assms] obtain ps
    where ps: "yields K (read_dir (sim_env ok dv f) ''/sys/module/nvme/parameters'') ps []" ..
  have "yields K (get_nvme_module_info (sim_env ok dv f))
          (AList.update ''parameters'' (JObj ps) t) []"
    unfolding get_nvme_module_info_def
    by (rule yields_bind t ps yields_ret | simp)+
  then show ?thesis
    by (rule yields_bind) (rule sim_save_dict assms | simp)+
qed

lemma sim_queue:
  assumes "quiet K"
  shows "yields K (bind (get_queue_info (sim_env ok dv f) d)
                     (\<lambda>d. save_dict (sim_env ok dv f) p (JObj d))) () []"
proof -
  from sim_read_dir [OF assms] obtain t
    where "yields K (get_queue_info (sim_env ok dv f) d) t []"
    unfolding get_queue_info_def ..
  then show ?thesis
    by (rule yields_bind) (rule sim_save_dict assms | simp)+
qed

lemma sim_match_or_exit:
  assumes "quiet K"
  shows "yields K (match_or_exit (sim_env ok dv f) p l) [] []"
  using assms
  by (simp add: yields_def match_or_exit_def bind_def ret_def ask_def sim_env_def quiet_def)

lemma sim_get_nvme_feature:
  assumes "quiet K" and "\<And>cmd. ok cmd"
  shows "yields K (get_nvme_feature (sim_env ok dv f) d fid)
           (JObj (AList.update ''human-readable'' (JArr []) [])) []"
proof -
  have sp: "splitlines (sim_env ok dv f) s = [''get-feature'']" for s
    by (simp add: sim_env_def)
  show ?thesis
    unfolding get_nvme_feature_def run_nvme_get_feature_def sp list.case for_each.simps
    by (rule yields_bind sim_run [where ok = ok] sim_decode sim_match_or_exit yields_ret assms
        | simp)+
qed

lemma sim_features:
  assumes "quiet K" and "\<And>cmd. ok cmd"
  shows "yields K (bind (get_nvme_features (sim_env ok dv f) d)
                     (save_dict (sim_env ok dv f) p)) () []"
proof -
  have "yields K (for_each (get_nvme_feature (sim_env ok dv f) d) FIDS)
          (map (\<lambda>fid. JObj (AList.update ''human-readable'' (JArr []) [])) FIDS) []"
    by (rule yields_for_each) (rule sim_get_nvme_feature assms)+
  then have "yields K (get_nvme_features (sim_env ok dv f) d)
               (JArr (map (\<lambda>fid. JObj (AList.update ''human-readable'' (JArr []) [])) FIDS)) []"
    unfolding get_nvme_features_def by (rule yields_bind) (rule yields_ret | simp)+
  then show ?thesis
    by (rule yields_bind) (rule sim_save_dict assms | simp)+
qed

lemma sim_save_run:
  assumes "quiet K" and "\<And>cmd. ok cmd"
  shows "yields K (save_run (sim_env ok dv f) a sub (run (sim_env ok dv f) cmd)) () []"
  unfolding save_run_def
  by (rule yields_bind sim_run [where ok = ok] sim_save_stdout_stderr assms | simp)+

lemma sim_get_nvme_namespace:
  assumes "quiet K" and "find_in_devices ds (basename d) = Inr (Some n)"
  shows "yields K (get_nvme_namespace (sim_env ok (JArr ds) f) data d) n []"
proof -
  have "lift (then_sum (getitem (sim_json (JArr ds) f data) ''Devices'')
          (\<lambda>v. then_sum (py_iter v) (\<lambda>ds. find_in_devices ds (basename d))))
          = lift (Inr (Some n))"
    by (simp add: sim_json_def getitem_def py_iter_def then_sum_def assms(2))
  then show ?thesis
    unfolding get_nvme_namespace_def Let_def
    by (intro yields_bind [OF sim_json_loads [OF assms(1)]])
       (rule yields_bind yields_lift yields_ret | simp)+
qed

lemma sim_iops_conditions:
  assumes "quiet K" and "\<And>cmd. ok cmd"
    and "find_in_devices ds (basename (dev a)) = Inr (Some n)"
    and "physical_size_of n = Inr ps"
  shows "yields K (iops_conditions (sim_env ok (JArr ds) f) a) ps []"
  unfolding iops_conditions_def run_lshw_def run_lspci_def run_nvme_id_ctrl_def
    run_nvme_smart_log_def run_nvme_list_def assms(4) [symmetric]
  by (rule yields_then_io sim_save_run [where ok = ok] sim_module_config sim_features
      [where ok = ok] sim_queue yields_bind sim_run [where ok = ok] sim_save_stdout_stderr
      sim_decode sim_get_nvme_namespace yields_lift assms | simp add: assms(4))+

lemma sim_iops_purge:
  assumes "quiet K" and "\<And>cmd. ok cmd"
  shows "yields K (iops_purge (sim_env ok dv f) a) () []"
proof (cases "test a")
  case True
  then show ?thesis
    by (simp add: iops_purge_def yields_ret)
next
  case False
  have "yields K (save_run (sim_env ok dv f) a [''purge/nvme-format'']
                   (run_nvme_format (sim_env ok dv f) (dev a))) () []"
    unfolding run_nvme_format_def by (rule sim_save_run assms)+
  then show ?thesis
    using False by (simp add: iops_purge_def)
qed

lemma sim_iops_mode:
  assumes "quiet K" and "\<And>cmd. ok cmd"
    and "mode a = ''PTS-E'' \<or> mode a = ''PTS-C''"
  shows "yields K (iops_mode (sim_env ok dv f) a ps)
           (if mode a = ''PTS-E'' then (ps, 32, 4) else (py_int (0.75 * real_of_int ps), 16, 2)) []"
proof -
  have set_feature: "yields K (save_run (sim_env ok dv f) a [''pre-conditioning/nvme-set-feature'']
                   (run_nvme_set_feature (sim_env ok dv f) (dev a) 0x06 v)) () []" for v
    unfolding run_nvme_set_feature_def by (rule sim_save_run assms)+
  show ?thesis
  proof (cases "mode a = ''PTS-E''")
    case True
    have "yields K (then_io (save_run (sim_env ok dv f) a [''pre-conditioning/nvme-set-feature'']
                   (run_nvme_set_feature (sim_env ok dv f) (dev a) 0x06 0))
          (ret (ps, 32, 4))) (ps, 32, 4) []"
      using set_feature yields_ret by (rule yields_then_io) simp
    then show ?thesis
      using True by (simp add: iops_mode_def)
  next
    case False
    with assms(3) have c: "mode a = ''PTS-C''" by simp
    have "yields K (then_io (save_run (sim_env ok dv f) a [''pre-conditioning/nvme-set-feature'']
                   (run_nvme_set_feature (sim_env ok dv f) (dev a) 0x06 1))
          (ret (py_int (0.75 * real_of_int ps), 16, 2))) (py_int (0.75 * real_of_int ps), 16, 2) []"
      using set_feature yields_ret by (rule yields_then_io) simp
    then show ?thesis
      using False c by (simp add: iops_mode_def)
  qed
qed

text \<open>An event of the first part of a sequence, or of the rest after a part that returns.\<close>

lemma emitted_first:
  assumes "ev \<in> set (snd (m tr))"
  shows "ev \<in> set (snd (bind m f tr))"
  using assms by (auto simp: bind_def split: prod.splits sum.splits)

lemma emitted_after:
  assumes "yields K m a ls" and "\<And>tr. ev \<in> set (snd (f a tr))"
  shows "ev \<in> set (snd (bind m f tr))"
proof -
  from assms(1) obtain e1 where m: "m tr = (Inr a, e1)"
    by (rule yieldsD)
  have "ev \<in> set (snd (f a (tr @ e1)))"
    by (rule assms(2))
  then show ?thesis
    by (cases "f a (tr @ e1)") (simp add: bind_def m)
qed

lemma quiet_none: "quiet (\<lambda>e. False)"
  by (simp add: quiet_def)

lemma wipc_render_emitted:
  "Called (Render WIPC_JOB_TPL (wipc_kwargs a ps ar qd tc)) True
     \<in> set (snd (iops_wipc (sim_env ok dv f) a ps ar qd tc tr))"
  unfolding iops_wipc_def
  by (rule emitted_first) (simp add: render_def ask_def sim_env_def)

lemma wipc_fio_emitted:
  assumes "\<not> test a" and "\<And>cmd. ok cmd"
  shows "Called (Subprocess (fio_cmd (path_join (output a) [''pre-conditioning/wipc'']))) True
     \<in> set (snd (iops_wipc (sim_env ok dv f) a ps ar qd tc tr))"
proof -
  have "Called (Subprocess (fio_cmd d)) True
          \<in> set (snd (run_and_save_fio (sim_env ok dv f) d job tr))" for d job tr
    unfolding run_and_save_fio_def fio_cmd_def [symmetric]
    apply (rule emitted_after [OF sim_create_dir [OF quiet_none]])
    apply (rule emitted_after [OF sim_save_file [OF quiet_none]])
    apply (rule emitted_first)
    apply (simp add: run_def ask_def sim_env_def assms(2))
    done
  then have "Called (Subprocess (fio_cmd d)) True
          \<in> set (snd (then_io (run_and_save_fio (sim_env ok dv f) d job) (ret ()) tr))" for d job tr
    unfolding then_io_def by (rule emitted_first)
  then show ?thesis
    unfolding iops_wipc_def using assms(1)
    by (intro emitted_after [OF sim_render [OF quiet_none]]) simp
qed

lemma iops_emits_wipc:
  assumes "\<And>cmd. ok cmd"
    and "find_in_devices ds (basename (dev a)) = Inr (Some n)"
    and "physical_size_of n = Inr ps"
    and "mode a = ''PTS-E''"
    and "\<And>tr. ev \<in> set (snd (iops_wipc (sim_env ok (JArr ds) f) a ps ps 32 4 tr))"
  shows "ev \<in> set (snd (iops (sim_env ok (JArr ds) f) a tr))"
proof -
  have md: "yields (\<lambda>e. False) (iops_mode (sim_env ok (JArr ds) f) a ps) (ps, 32, 4) []"
    using sim_iops_mode [OF quiet_none assms(1), where a = a and dv = "JArr ds" and f = f
        and ps = ps] assms(4)
    by simp
  show ?thesis
    unfolding iops_def
    apply (rule emitted_after [OF sim_iops_conditions [OF quiet_none assms(1,2,3)]])
    unfolding then_io_def
    apply (rule emitted_after [OF sim_iops_purge [OF quiet_none assms(1)]])
    apply (rule emitted_after [OF md])
    apply (simp only: Let_def prod.case)
    apply (rule emitted_first)
    apply (rule assms(5))
    done
qed

text \<open>
  C9. A session on a device of 1001 KiB in enterprise mode (4 threads): the program
  takes the physical size 1001 from the list of namespaces, renders the job of the
  workload-independent pre-conditioning with \<open>size\<close> = 1001k and \<open>io_size\<close> = 500k, the
  quotient \<open>2 * 1001 / 4\<close> truncated to an integer, and runs fio on it. The four threads
  write 2000 KiB together, 2 KiB less than twice the physical size.
\<close>

theorem wipc_volume_short_of_twice:
  "fst (iops_conditions odd_env odd_args []) = Inr 1001
   \<and> Called (Render WIPC_JOB_TPL
         [(''device'', PStr ''/dev/nvme0n1''), (''queue_depth'', PInt 32),
          (''thread_count'', PInt 4), (''seed'', PInt 0xDEADBEEF),
          (''size'', PStr ''1001k''), (''io_size'', PStr ''500k'')]) True
       \<in> set (snd (iops odd_env odd_args []))
   \<and> Called (Subprocess (fio_cmd (path_join ''out'' [''pre-conditioning/wipc'']))) True
       \<in> set (snd (iops odd_env odd_args []))
   \<and> wipc_io_size 1001 4 = 500
   \<and> 4 * wipc_io_size 1001 4 = 2 * 1001 - 2"
proof -
  have ok: "True" for cmd :: "string list" ..
  have ns: "find_in_devices
              [JObj [(''Controllers'',
                 JArr [JObj [(''Namespaces'',
                   JArr [JObj [(''NameSpace'', JStr ''nvme0n1''),
                               (''PhysicalSize'', JInt 1025024)]])]])]]
              (basename (dev odd_args))
            = Inr (Some (JObj [(''NameSpace'', JStr ''nvme0n1''),
                               (''PhysicalSize'', JInt 1025024)]))"
    by (simp add: odd_args_def basename_def getitem_def py_iter_def then_sum_def)
  have ps: "physical_size_of (JObj [(''NameSpace'', JStr ''nvme0n1''),
                               (''PhysicalSize'', JInt 1025024)]) = Inr 1001"
    by (simp add: physical_size_of_def getitem_def as_number_def then_sum_def py_int_def)
  have env: "odd_env = sim_env (\<lambda>cmd. True)
               (JArr [JObj [(''Controllers'',
                 JArr [JObj [(''Namespaces'',
                   JArr [JObj [(''NameSpace'', JStr ''nvme0n1''),
                               (''PhysicalSize'', JInt 1025024)]])]])]]) (\<lambda>s. (1000, 500))"
    by (simp add: odd_env_def odd_devices_def)
  have m: "mode odd_args = ''PTS-E''" and t: "\<not> test odd_args"
    by (simp_all add: odd_args_def)
  have "yields (\<lambda>e. False) (iops_conditions odd_env odd_args) 1001 []"
    unfolding env by (rule sim_iops_conditions [OF quiet_none _ ns ps]) simp
  then have c: "fst (iops_conditions odd_env odd_args []) = Inr 1001"
    by (simp add: yields_def)
  have io: "wipc_io_size 1001 4 = 500"
    by (simp add: wipc_io_size_def py_int_def)
  have d: "fmt_d 1001 = ''1001''" "fmt_d 500 = ''500''"
    by (simp_all add: fmt_d_def digit_char_def)
  have kw: "wipc_kwargs odd_args 1001 1001 32 4
              = [(''device'', PStr ''/dev/nvme0n1''), (''queue_depth'', PInt 32),
                 (''thread_count'', PInt 4), (''seed'', PInt 0xDEADBEEF),
                 (''size'', PStr ''1001k''), (''io_size'', PStr ''500k'')]"
    by (simp add: wipc_kwargs_def io d odd_args_def)
  have r: "Called (Render WIPC_JOB_TPL (wipc_kwargs odd_args 1001 1001 32 4)) True
             \<in> set (snd (iops odd_env odd_args []))"
    unfolding env
    by (rule iops_emits_wipc [OF _ ns ps m]) (simp_all add: wipc_render_emitted)
  have o: "output odd_args = ''out''"
    by (simp add: odd_args_def)
  have "Called (Subprocess (fio_cmd (path_join (output odd_args) [''pre-conditioning/wipc'']))) True
             \<in> set (snd (iops odd_env odd_args []))"
    unfolding env
    by (rule iops_emits_wipc [OF _ ns ps m]) (simp_all add: wipc_fio_emitted [OF t])
  then show ?thesis
    using c r io unfolding kw o by simp
qed


end
